theory Spec2Isabelle
  imports Main "HOL-Library.Sublist"
begin

section \<open>Strings\<close>

text \<open>
  JavaScript strings are modelled as \<^typ>\<open>string\<close>. \<open>String.prototype.trim\<close> strips white
  space and line terminators from both ends; within the characters of \<^typ>\<open>char\<close> these are
  TAB, LF, VT, FF, CR, SPACE and NBSP.
\<close>

definition isWhiteSpace :: "char \<Rightarrow> bool" where
  "isWhiteSpace c = (of_char c \<in> {9, 10, 11, 12, 13, 32, 160 :: nat})"

definition trim :: "string \<Rightarrow> string" where
  "trim s = rev (dropWhile isWhiteSpace (rev (dropWhile isWhiteSpace s)))"

text \<open>\<open>s.includes(sub)\<close>: \<open>sub\<close> occurs in \<open>s\<close> as a contiguous substring.\<close>

fun str_includes :: "string \<Rightarrow> string \<Rightarrow> bool" where
  "str_includes [] sub = (sub = [])"
| "str_includes (c # cs) sub = (take (length sub) (c # cs) = sub \<or> str_includes cs sub)"

text \<open>Decimal rendering of a number inside a template literal.\<close>

fun digits :: "nat \<Rightarrow> string" where
  "digits n =
     (if n < 10 then [''0123456789'' ! n]
      else digits (n div 10) @ [''0123456789'' ! (n mod 10)])"

definition show_int :: "int \<Rightarrow> string" where
  "show_int i = (if i < 0 then CHR ''-'' # digits (nat (- i)) else digits (nat i))"

section \<open>Thrown values\<close>

text \<open>
  What a \<open>catch\<close> clause of the service or of the application receives. The fields are the
  ones the two handlers read: \<open>error.message\<close>, \<open>error.status\<close>, \<open>error.statusText\<close>,
  \<open>error.error\<close> (with \<open>code\<close>, \<open>message\<close>, \<open>status\<close>) and \<open>error.response\<close> (with
  \<open>status\<close>, \<open>statusText\<close>). An absent string field is the empty string (both are falsy), an
  absent number is \<open>None\<close>.
\<close>

record error_body =
  eb_code :: "int option"
  eb_message :: string
  eb_status :: string

record http_response =
  hr_status :: "int option"
  hr_statusText :: string

record js_error =
  instanceofError :: bool
  e_message :: string
  e_status :: "int option"
  e_statusText :: string
  e_error :: "error_body option"
  e_response :: "http_response option"

text \<open>Truthiness of an optional number, and \<open>a || b\<close> on such values and on strings.\<close>

definition truthy_num :: "int option \<Rightarrow> bool" where
  "truthy_num v = (case v of None \<Rightarrow> False | Some n \<Rightarrow> n \<noteq> 0)"

definition or_num :: "int option \<Rightarrow> int option \<Rightarrow> int option" where
  "or_num a b = (if truthy_num a then a else b)"

definition or_str :: "string \<Rightarrow> string \<Rightarrow> string" where
  "or_str a b = (if a \<noteq> [] then a else b)"

definition error_code :: "js_error \<Rightarrow> int option" where
  \<comment> \<open>\<open>error.status || error.error?.code || error.response?.status\<close>\<close>
  "error_code error =
     or_num (or_num (e_status error) (case e_error error of None \<Rightarrow> None | Some b \<Rightarrow> eb_code b))
       (case e_response error of None \<Rightarrow> None | Some r \<Rightarrow> hr_status r)"

definition error_statusText :: "js_error \<Rightarrow> string" where
  \<comment> \<open>\<open>error.statusText || error.error?.status || error.response?.statusText || ''\<close>\<close>
  "error_statusText error =
     or_str (or_str (or_str (e_statusText error)
         (case e_error error of None \<Rightarrow> [] | Some b \<Rightarrow> eb_status b))
         (case e_response error of None \<Rightarrow> [] | Some r \<Rightarrow> hr_statusText r)) []"

definition isRateLimit :: "js_error \<Rightarrow> bool" where
  "isRateLimit error =
     (str_includes (e_message error) ''429'' \<or>
      str_includes (e_message error) ''RESOURCE_EXHAUSTED'' \<or>
      error_code error = Some 429)"

definition isServerOverload :: "js_error \<Rightarrow> bool" where
  "isServerOverload error =
     (str_includes (e_message error) ''503'' \<or>
      str_includes (e_message error) ''UNAVAILABLE'' \<or>
      str_includes (e_message error) ''overloaded'' \<or>
      str_includes (e_message error) ''500'' \<or>
      str_includes (e_message error) ''Internal Server Error'' \<or>
      error_code error = Some 503 \<or>
      error_code error = Some 500 \<or>
      str_includes (error_statusText error) ''Internal Server Error'')"

definition isTransient :: "js_error \<Rightarrow> bool" where
  "isTransient error = (isRateLimit error \<or> isServerOverload error)"

section \<open>Retry with backoff\<close>

text \<open>
  \<open>retryWithBackoff(operation, retries = 4, delay = 2000, factor = 2)\<close>. The operation is a
  closure over the backend, so \<open>operation n\<close> is the outcome of its invocation number \<open>n\<close>
  (counted from 0): \<open>Inr\<close> a value, \<open>Inl\<close> the thrown error. The function returns the
  outcome handed to the caller, the number of invocations made so far, and the delays (in
  milliseconds) slept between them.
\<close>

fun retryWithBackoff ::
  "(nat \<Rightarrow> js_error + 'a) \<Rightarrow> nat \<Rightarrow> nat \<Rightarrow> nat \<Rightarrow> nat \<Rightarrow> (js_error + 'a) \<times> nat \<times> nat list" where
  "retryWithBackoff operation n retries delay factor =
     (case operation n of
        Inr v \<Rightarrow> (Inr v, Suc n, [])
      | Inl error \<Rightarrow>
          if retries > 0 \<and> (isRateLimit error \<or> isServerOverload error) then
            (case retryWithBackoff operation (Suc n) (retries - 1) (delay * factor) factor of
               (res, k, ds) \<Rightarrow> (res, k, delay # ds))
          else (Inl error, Suc n, []))"

definition retryWithBackoff_default ::
  "(nat \<Rightarrow> js_error + 'a) \<Rightarrow> (js_error + 'a) \<times> nat \<times> nat list" where
  \<comment> \<open>the call \<open>retryWithBackoff(operation)\<close>, every other parameter at its default\<close>
  "retryWithBackoff_default operation = retryWithBackoff operation 0 4 2000 2"

definition with_retry :: "(nat \<Rightarrow> js_error + 'a) \<Rightarrow> js_error + 'a" where
  \<comment> \<open>\<open>await retryWithBackoff(operation)\<close>: what the caller receives\<close>
  "with_retry operation = fst (retryWithBackoff_default operation)"

text \<open>Sample thrown values and operations.\<close>

definition plain_error :: "string \<Rightarrow> js_error" where
  \<comment> \<open>\<open>new Error(msg)\<close>\<close>
  "plain_error msg =
     \<lparr>instanceofError = True, e_message = msg, e_status = None, e_statusText = [],
      e_error = None, e_response = None\<rparr>"

definition rate_limit_error :: js_error where
  "rate_limit_error = plain_error ''429 Too Many Requests''"

definition bad_request_error :: js_error where
  "bad_request_error = plain_error ''400 Bad Request''"

definition always_rate_limited :: "nat \<Rightarrow> js_error + unit" where
  "always_rate_limited n = Inl rate_limit_error"

definition always_bad_request :: "nat \<Rightarrow> js_error + unit" where
  "always_bad_request n = Inl bad_request_error"

declare retryWithBackoff.simps [simp del]

section \<open>Data model\<close>

text \<open>
  The records carry the fields the orchestration reads or writes, under the names of
  \<open>types.ts\<close> (prefixed where two interfaces share a field name). Fields that are only
  displayed (acts, themes, ratings, the tool sub-states and the two time stamps of a project)
  are left out; no function below depends on them.
\<close>

datatype screen_presence = OnScreen | OffScreen

record character_profile =
  name :: string
  description :: string
  screen_presence :: screen_presence
  arc :: string
  motivation :: string
  image_base64 :: "string option"

record stage1_result =
  page_count :: int
  logline :: string
  synopsis_brief :: string
  synopsis_extended :: string

record title_visual =
  tv_title :: string
  tv_image_base64 :: string

record stage2_result =
  title :: string
  author :: string
  genre :: string
  tone :: string
  tone_and_mood_details :: string
  s2_logline :: string
  world_and_setting :: string
  character_profiles :: "character_profile list"
  treatment :: string
  comparable_titles :: "string list"
  comparable_titles_visuals :: "title_visual list option"
  target_audience :: string
  visual_style_suggestion :: string
  visual_style_images_base64 :: "string list option"
  concept_art_base64 :: "string option"
  movie_poster_base64 :: "string option"

record stage3_result =
  total_shooting_days :: int
  risk_assessment :: "string list"

record full_scene =
  scene_number :: int
  heading :: string
  content :: string

record project =
  project_id :: "nat option"
  project_name :: string
  script :: string
  stage1Result :: "stage1_result option"
  stage2Result :: "stage2_result option"
  stage3Result :: "stage3_result option"
  fullScenes :: "full_scene list option"

definition createNewProject :: project where
  "createNewProject =
     \<lparr>project_id = None, project_name = ''Untitled Project'', script = [],
      stage1Result = None, stage2Result = None, stage3Result = None, fullScenes = None\<rparr>"

datatype analysis_status =
    IDLE | ANALYZING_STAGE_1 | ANALYZING_STAGE_2 | ANALYZING_STAGE_2_VISUALS
  | ANALYZING_STAGE_3 | PAUSED | COMPLETE | ERROR

record visual_options =
  poster :: bool
  concept :: bool
  characters :: bool

section \<open>The backend and the user\<close>

text \<open>
  The generative backend is a parameter. Each of its operations is the body of one
  \<open>retryWithBackoff(async () => ...)\<close> closure of the service: given what the prompt is
  built from and the number of the attempt, it yields the closure's outcome (for an analysis
  the parsed result, for \<open>generateImages\<close> the \<open>imageBytes\<close> of the generated images, the
  empty string where they are missing, for the grounded \<open>generateContent\<close> the
  \<open>inlineData.data\<close> of each part, \<open>None\<close> for a part without \<open>inlineData\<close>).

  The user is a parameter as well: \<open>stop_during op\<close> says that the Stop button is clicked
  while the orchestrator awaits \<open>op\<close>.
\<close>

datatype image_request =
    ConceptArt | MoviePoster | Portrait character_profile | ComparablePoster string | StyleFrames

datatype gateway_op = OpStage1 | OpStage2 | OpVisuals | OpStage3 | OpScenes

record environment =
  be_stage1 :: "string \<Rightarrow> nat \<Rightarrow> js_error + stage1_result"
  be_stage2 :: "string \<Rightarrow> string \<Rightarrow> string \<Rightarrow> nat \<Rightarrow> js_error + stage2_result"
  be_stage3 :: "string \<Rightarrow> nat \<Rightarrow> js_error + stage3_result"
  be_scenes :: "string \<Rightarrow> nat \<Rightarrow> js_error + full_scene list"
  be_images :: "stage2_result \<Rightarrow> image_request \<Rightarrow> nat \<Rightarrow> js_error + string list"
  be_grounded :: "string \<Rightarrow> nat \<Rightarrow> js_error + string option list"
  stop_during :: "gateway_op \<Rightarrow> bool"

definition analyzeStage1 :: "environment \<Rightarrow> string \<Rightarrow> js_error + stage1_result" where
  "analyzeStage1 env script_text = with_retry (be_stage1 env script_text)"

definition analyzeStage2 ::
  "environment \<Rightarrow> string \<Rightarrow> string \<Rightarrow> string \<Rightarrow> js_error + stage2_result" where
  "analyzeStage2 env script_text logl synopsis = with_retry (be_stage2 env script_text logl synopsis)"

definition analyzeStage3 :: "environment \<Rightarrow> string \<Rightarrow> js_error + stage3_result" where
  "analyzeStage3 env script_text = with_retry (be_stage3 env script_text)"

definition extractScenes :: "environment \<Rightarrow> string \<Rightarrow> js_error + full_scene list" where
  "extractScenes env script_text = with_retry (be_scenes env script_text)"

section \<open>Generating the visuals\<close>

record character_portrait =
  portrait_name :: string
  portrait_image_base64 :: string

record visuals =
  v_concept_art_base64 :: string
  v_movie_poster_base64 :: string
  v_character_portraits :: "character_portrait list"
  v_comparable_titles_visuals :: "title_visual list"
  v_visual_style_images_base64 :: "string list"

text \<open>What \<open>generateAllVisuals\<close> does besides computing its result, in order.\<close>

datatype visual_event = Sleep nat | ImagesCall image_request | GroundedCall string

definition imageBytes0 :: "string list \<Rightarrow> string" where
  \<comment> \<open>\<open>resp.generatedImages?.[0]?.image.imageBytes || ''\<close>\<close>
  "imageBytes0 imgs = (case imgs of [] \<Rightarrow> [] | b # _ \<Rightarrow> b)"

definition firstInlineData :: "string option list \<Rightarrow> string" where
  \<comment> \<open>the loop over \<open>parts\<close> that stops at the first part with \<open>inlineData\<close>\<close>
  "firstInlineData parts =
     (case List.find (\<lambda>part. part \<noteq> None) parts of Some (Some d) \<Rightarrow> d | _ \<Rightarrow> [])"

definition mainCharacters :: "stage2_result \<Rightarrow> character_profile list" where
  "mainCharacters pitchDeckData =
     take 2 (filter (\<lambda>c. screen_presence c = OnScreen) (character_profiles pitchDeckData))"

definition conceptArtStep ::
  "environment \<Rightarrow> stage2_result \<Rightarrow> visual_options \<Rightarrow> string \<times> visual_event list" where
  "conceptArtStep env pitchDeckData options =
     (if concept options then
        (case with_retry (be_images env pitchDeckData ConceptArt) of
           Inr imgs \<Rightarrow> (imageBytes0 imgs, [ImagesCall ConceptArt])
         | Inl e \<Rightarrow> ([], [ImagesCall ConceptArt]))
      else ([], []))"

definition moviePosterStep ::
  "environment \<Rightarrow> stage2_result \<Rightarrow> visual_options \<Rightarrow> string \<times> visual_event list" where
  "moviePosterStep env pitchDeckData options =
     (if poster options then
        (let pause = (if concept options then [Sleep 2000] else []) in
         case with_retry (be_images env pitchDeckData MoviePoster) of
           Inr imgs \<Rightarrow> (imageBytes0 imgs, pause @ [ImagesCall MoviePoster])
         | Inl e \<Rightarrow> ([], pause @ [ImagesCall MoviePoster]))
      else ([], []))"

text \<open>
  The loop over \<open>mainCharacters\<close>; the accumulator is the array \<open>character_portraits\<close>. A
  portrait that cannot be generated is caught inside the loop body and the loop goes on.
\<close>

fun portraitLoop ::
  "environment \<Rightarrow> stage2_result \<Rightarrow> visual_options \<Rightarrow> character_profile list \<Rightarrow>
   character_portrait list \<Rightarrow> character_portrait list \<times> visual_event list" where
  "portraitLoop env pitchDeckData options [] portraits = (portraits, [])"
| "portraitLoop env pitchDeckData options (character # rest) portraits =
     (let pause = (if portraits \<noteq> [] \<or> poster options \<or> concept options then [Sleep 4000] else []);
          portraits' =
            (case with_retry (be_images env pitchDeckData (Portrait character)) of
               Inr imgs \<Rightarrow>
                 if imageBytes0 imgs \<noteq> [] then
                   portraits @ [\<lparr>portrait_name = name character,
                                  portrait_image_base64 = imageBytes0 imgs\<rparr>]
                 else portraits
             | Inl e \<Rightarrow> portraits)
      in case portraitLoop env pitchDeckData options rest portraits' of
           (result, events) \<Rightarrow> (result, pause @ [ImagesCall (Portrait character)] @ events))"

text \<open>
  The loop over the first three comparable titles; the accumulator is
  \<open>comparable_titles_visuals\<close>, and \<open>havePortraits\<close> is \<open>character_portraits.length > 0\<close>.
\<close>

fun comparableLoop ::
  "environment \<Rightarrow> stage2_result \<Rightarrow> bool \<Rightarrow> string list \<Rightarrow> title_visual list \<Rightarrow>
   title_visual list \<times> visual_event list" where
  "comparableLoop env pitchDeckData havePortraits [] found = (found, [])"
| "comparableLoop env pitchDeckData havePortraits (t # rest) found =
     (let pause = (if found \<noteq> [] \<or> havePortraits then [Sleep 5000] else []);
          grounded =
            (case with_retry (be_grounded env t) of
               Inr parts \<Rightarrow> firstInlineData parts
             | Inl e \<Rightarrow> []);
          image =
            (if grounded = [] then
               (case with_retry (be_images env pitchDeckData (ComparablePoster t)) of
                  Inr imgs \<Rightarrow> imageBytes0 imgs
                | Inl e \<Rightarrow> [])
             else grounded);
          fallback =
            (if grounded = [] then [Sleep 2000, ImagesCall (ComparablePoster t)] else [])
      in case comparableLoop env pitchDeckData havePortraits rest
                (found @ [\<lparr>tv_title = t, tv_image_base64 = image\<rparr>]) of
           (result, events) \<Rightarrow> (result, pause @ [GroundedCall t] @ fallback @ events))"

definition styleFramesStep ::
  "environment \<Rightarrow> stage2_result \<Rightarrow> visual_options \<Rightarrow> string list \<times> visual_event list" where
  "styleFramesStep env pitchDeckData options =
     (if concept options then
        (case with_retry (be_images env pitchDeckData StyleFrames) of
           Inr imgs \<Rightarrow> (filter (\<lambda>b. b \<noteq> []) imgs, [Sleep 4000, ImagesCall StyleFrames])
         | Inl e \<Rightarrow> ([], [Sleep 4000, ImagesCall StyleFrames]))
      else ([], []))"

text \<open>
  \<open>generateAllVisuals\<close>. Every image request sits in a \<open>try\<close> of its own whose \<open>catch\<close> only
  logs a warning; the outer \<open>try\<close> rethrows, and nothing outside the inner ones can throw on
  a pitch deck of the declared type, so the function returns its bundle.
\<close>

definition generateAllVisuals ::
  "environment \<Rightarrow> stage2_result \<Rightarrow> visual_options \<Rightarrow> visuals \<times> visual_event list" where
  "generateAllVisuals env pitchDeckData options =
     (case conceptArtStep env pitchDeckData options of (concept_art, ev1) \<Rightarrow>
      case moviePosterStep env pitchDeckData options of (movie_poster, ev2) \<Rightarrow>
      case (if characters options
            then portraitLoop env pitchDeckData options (mainCharacters pitchDeckData) []
            else ([], [])) of (portraits, ev3) \<Rightarrow>
      case (if poster options \<or> concept options \<or> characters options
            then comparableLoop env pitchDeckData (portraits \<noteq> [])
                   (take 3 (comparable_titles pitchDeckData)) []
            else ([], [])) of (comparables, ev4) \<Rightarrow>
      case styleFramesStep env pitchDeckData options of (style_images, ev5) \<Rightarrow>
        (\<lparr>v_concept_art_base64 = concept_art, v_movie_poster_base64 = movie_poster,
          v_character_portraits = portraits, v_comparable_titles_visuals = comparables,
          v_visual_style_images_base64 = style_images\<rparr>,
         ev1 @ ev2 @ ev3 @ ev4 @ ev5))"

text \<open>
  The merge of the bundle into the stage-2 result, as \<open>executeAnalysis\<close> does it after the
  visuals are back.
\<close>

definition patchProfile :: "character_portrait list \<Rightarrow> character_profile \<Rightarrow> character_profile" where
  "patchProfile portraits profile =
     (case List.find (\<lambda>p. portrait_name p = name profile) portraits of
        Some portrait \<Rightarrow> profile\<lparr>image_base64 := Some (portrait_image_base64 portrait)\<rparr>
      | None \<Rightarrow> profile)"

definition mergeVisuals :: "stage2_result \<Rightarrow> visuals \<Rightarrow> stage2_result" where
  "mergeVisuals result2 v =
     (let u1 = (if v_concept_art_base64 v \<noteq> []
                then result2\<lparr>concept_art_base64 := Some (v_concept_art_base64 v)\<rparr> else result2);
          u2 = (if v_movie_poster_base64 v \<noteq> []
                then u1\<lparr>movie_poster_base64 := Some (v_movie_poster_base64 v)\<rparr> else u1);
          u3 = (if v_character_portraits v \<noteq> []
                then u2\<lparr>character_profiles :=
                       map (patchProfile (v_character_portraits v)) (character_profiles u2)\<rparr>
                else u2);
          u4 = (if v_comparable_titles_visuals v \<noteq> []
                then u3\<lparr>comparable_titles_visuals := Some (v_comparable_titles_visuals v)\<rparr>
                else u3)
      in if v_visual_style_images_base64 v \<noteq> []
         then u4\<lparr>visual_style_images_base64 := Some (v_visual_style_images_base64 v)\<rparr>
         else u4)"

section \<open>The application state\<close>

text \<open>
  The React state of \<open>App\<close> that the analysis handlers read or write, the mutable reference
  \<open>shouldStopRef.current\<close> (field \<open>shouldStop\<close>), and one field that is not in the source:
  \<open>trace\<close> records, in order, every Gateway operation the orchestrator starts, how it ends,
  and every click on Stop that arrives while one is awaited.
\<close>

datatype event = Started gateway_op | StopRequested | Completed gateway_op | Failed gateway_op

record app_state =
  status :: analysis_status
  error :: "string option"
  currentProject :: "project option"
  isVisualsModalOpen :: bool
  scriptToAnalyze :: string
  visualOptions :: "visual_options option"
  shouldStop :: bool
  fileHandle :: "string option"
  trace :: "event list"

definition handleNewProject :: "app_state \<Rightarrow> app_state" where
  "handleNewProject st =
     st\<lparr>currentProject := Some createNewProject, status := IDLE, error := None,
        fileHandle := None, visualOptions := None, shouldStop := False\<rparr>"

definition handleAnalysis :: "string \<Rightarrow> app_state \<Rightarrow> app_state" where
  "handleAnalysis scriptText st =
     (if trim scriptText = [] then st\<lparr>error := Some ''Script content cannot be empty.''\<rparr>
      else st\<lparr>scriptToAnalyze := scriptText, isVisualsModalOpen := True\<rparr>)"

definition handleStopAnalysis :: "app_state \<Rightarrow> app_state" where
  "handleStopAnalysis st = st\<lparr>shouldStop := True, status := PAUSED\<rparr>"

definition quota_message :: string where
  "quota_message = ''API quota exceeded. Please check your plan and billing details. For more information, see https://ai.google.dev/gemini-api/docs/rate-limits. To monitor your usage, visit https://ai.dev/usage?tab=rate-limit.''"

definition overload_message :: string where
  "overload_message = ''The AI model is currently experiencing high demand. Please wait a few moments and try again.''"

definition unknown_message :: string where
  "unknown_message = ''An unknown error occurred during analysis.''"

definition show_code :: "int option \<Rightarrow> string" where
  "show_code c = (case c of None \<Rightarrow> ''undefined'' | Some i \<Rightarrow> show_int i)"

definition handleError :: "js_error \<Rightarrow> app_state \<Rightarrow> app_state" where
  "handleError err st =
     (let errorMessage =
        (if instanceofError err then
           (if str_includes (e_message err) ''429'' \<or>
               str_includes (e_message err) ''RESOURCE_EXHAUSTED'' then quota_message
            else if str_includes (e_message err) ''503'' \<or>
               str_includes (e_message err) ''UNAVAILABLE'' \<or>
               str_includes (e_message err) ''overloaded'' then overload_message
            else e_message err)
         else
           (case e_error err of
              None \<Rightarrow> unknown_message
            | Some b \<Rightarrow>
                if eb_message b \<noteq> [] then eb_message b
                else if eb_status b \<noteq> [] then
                  ''API Error: '' @ eb_status b @ '' ('' @ show_code (eb_code b) @ '')''
                else unknown_message))
      in st\<lparr>error := Some errorMessage, status := ERROR\<rparr>)"

section \<open>The orchestrator\<close>

text \<open>
  This section follows one run of \<open>executeAnalysis\<close> from its call to its return, with no
  other run in flight and with Stop as the only button clicked meanwhile. Clicks on Resume
  and on Cancel while a call is awaited, and the runs that then overlap, are the subject of
  the section on clicks below, which takes the function apart at its \<open>await\<close>s; the run
  followed here is shown there to be the run of that section when it is driven alone.

  An \<open>await\<close> of a Gateway operation: the operation is started, the event loop runs while it
  is in flight (so a click on Stop is handled then, by \<open>handleStopAnalysis\<close>), and the
  operation ends by returning or by throwing.
\<close>

definition begin_call :: "environment \<Rightarrow> gateway_op \<Rightarrow> app_state \<Rightarrow> app_state" where
  "begin_call env op st =
     (if stop_during env op
      then handleStopAnalysis (st\<lparr>trace := trace st @ [Started op, StopRequested]\<rparr>)
      else st\<lparr>trace := trace st @ [Started op]\<rparr>)"

definition end_call :: "gateway_op \<Rightarrow> bool \<Rightarrow> app_state \<Rightarrow> app_state" where
  "end_call op ok st = st\<lparr>trace := trace st @ [if ok then Completed op else Failed op]\<rparr>"

text \<open>
  The body of \<open>executeAnalysis\<close> after the working project is chosen is four blocks in a
  row. Each takes the local variable \<open>activeProject\<close> and the state, and either returns from
  the function (\<open>Inl\<close>, with the state at that moment) or falls through to the next block
  (\<open>Inr\<close>).
\<close>

type_synonym block_result = "app_state + project \<times> app_state"

definition stage1_block ::
  "environment \<Rightarrow> string \<Rightarrow> project \<times> app_state \<Rightarrow> block_result" where
  "stage1_block env scriptText = (\<lambda>(activeProject, st).
     if stage1Result activeProject = None then
       if shouldStop st then Inl (st\<lparr>status := PAUSED\<rparr>)
       else
         let st1 = begin_call env OpStage1 (st\<lparr>status := ANALYZING_STAGE_1\<rparr>) in
         case analyzeStage1 env scriptText of
           Inr result1 \<Rightarrow>
             let activeProject' = activeProject\<lparr>stage1Result := Some result1\<rparr> in
             Inr (activeProject',
                  (end_call OpStage1 True st1)\<lparr>currentProject := Some activeProject'\<rparr>)
         | Inl err \<Rightarrow> Inl (handleError err (end_call OpStage1 False st1))
     else Inr (activeProject, st))"

definition stage2_block ::
  "environment \<Rightarrow> string \<Rightarrow> project \<times> app_state \<Rightarrow> block_result" where
  "stage2_block env scriptText = (\<lambda>(activeProject, st).
     if stage2Result activeProject = None then
       if shouldStop st then Inl (st\<lparr>status := PAUSED\<rparr>)
       else
         let st1 = begin_call env OpStage2 (st\<lparr>status := ANALYZING_STAGE_2\<rparr>);
             logl = (case stage1Result activeProject of None \<Rightarrow> [] | Some r \<Rightarrow> logline r);
             synopsis =
               (case stage1Result activeProject of None \<Rightarrow> [] | Some r \<Rightarrow> synopsis_extended r)
         in
         case analyzeStage2 env scriptText logl synopsis of
           Inr result2 \<Rightarrow>
             let activeProject' = activeProject\<lparr>stage2Result := Some result2\<rparr> in
             Inr (activeProject',
                  (end_call OpStage2 True st1)\<lparr>currentProject := Some activeProject'\<rparr>)
         | Inl err \<Rightarrow> Inl (handleError err (end_call OpStage2 False st1))
     else Inr (activeProject, st))"

definition needVisuals :: "visual_options option \<Rightarrow> bool" where
  \<comment> \<open>\<open>options && (options.poster || options.concept || options.characters)\<close>\<close>
  "needVisuals options =
     (case options of None \<Rightarrow> False | Some opts \<Rightarrow> poster opts \<or> concept opts \<or> characters opts)"

definition hasSomeVisuals :: "project \<Rightarrow> bool" where
  \<comment> \<open>computed by the source in the visuals block, and read nowhere\<close>
  "hasSomeVisuals activeProject =
     (case stage2Result activeProject of
        None \<Rightarrow> False
      | Some r \<Rightarrow>
          (case concept_art_base64 r of Some c \<Rightarrow> c \<noteq> [] | None \<Rightarrow> False) \<or>
          (case movie_poster_base64 r of Some m \<Rightarrow> m \<noteq> [] | None \<Rightarrow> False))"

text \<open>
  With \<open>stage2Result\<close> null, \<open>generateAllVisuals\<close> would throw a \<open>TypeError\<close> on its first
  line, its outer \<open>catch\<close> would rethrow it and the block's \<open>catch\<close> would call
  \<open>handleError\<close>.
\<close>

definition visuals_block ::
  "environment \<Rightarrow> visual_options option \<Rightarrow> project \<times> app_state \<Rightarrow> block_result" where
  "visuals_block env options = (\<lambda>(activeProject, st).
     case options of
       None \<Rightarrow> Inr (activeProject, st)
     | Some opts \<Rightarrow>
         if needVisuals options then
           if shouldStop st then Inl (st\<lparr>status := PAUSED\<rparr>)
           else
             let st1 = begin_call env OpVisuals (st\<lparr>status := ANALYZING_STAGE_2_VISUALS\<rparr>) in
             case stage2Result activeProject of
               None \<Rightarrow>
                 Inl (handleError (plain_error ''Cannot read properties of null'')
                        (end_call OpVisuals False st1))
             | Some result2 \<Rightarrow>
                 let visuals = fst (generateAllVisuals env result2 opts);
                     activeProject' =
                       activeProject\<lparr>stage2Result := Some (mergeVisuals result2 visuals)\<rparr>
                 in Inr (activeProject',
                         (end_call OpVisuals True st1)\<lparr>currentProject := Some activeProject'\<rparr>)
         else Inr (activeProject, st))"

definition stage3_block ::
  "environment \<Rightarrow> string \<Rightarrow> project \<times> app_state \<Rightarrow> block_result" where
  "stage3_block env scriptText = (\<lambda>(activeProject, st).
     if stage3Result activeProject = None then
       if shouldStop st then Inl (st\<lparr>status := PAUSED\<rparr>)
       else
         let st1 = begin_call env OpStage3 (st\<lparr>status := ANALYZING_STAGE_3\<rparr>) in
         case analyzeStage3 env scriptText of
           Inl err \<Rightarrow> Inl (handleError err (end_call OpStage3 False st1))
         | Inr result3 \<Rightarrow>
             let st2 = begin_call env OpScenes (end_call OpStage3 True st1) in
             case extractScenes env scriptText of
               Inl err \<Rightarrow> Inl (handleError err (end_call OpScenes False st2))
             | Inr scenes \<Rightarrow>
                 let activeProject' =
                       activeProject\<lparr>stage3Result := Some result3, fullScenes := Some scenes\<rparr>
                 in Inr (activeProject',
                         (end_call OpScenes True st2)\<lparr>currentProject := Some activeProject'\<rparr>)
     else Inr (activeProject, st))"

text \<open>
  Sequencing: a block that returns ends the function, a block that falls through hands its
  working project and state to the next. After the last block the status becomes
  \<open>COMPLETE\<close>.
\<close>

definition and_then ::
  "(project \<times> app_state \<Rightarrow> block_result) \<Rightarrow> (project \<times> app_state \<Rightarrow> block_result) \<Rightarrow>
   project \<times> app_state \<Rightarrow> block_result" where
  "and_then f g w = (case f w of Inl s \<Rightarrow> Inl s | Inr w' \<Rightarrow> g w')"

definition finish :: "block_result \<Rightarrow> app_state" where
  "finish r = (case r of Inl s \<Rightarrow> s | Inr (p, s) \<Rightarrow> s\<lparr>status := COMPLETE\<rparr>)"

definition all_blocks ::
  "environment \<Rightarrow> visual_options option \<Rightarrow> string \<Rightarrow> project \<times> app_state \<Rightarrow> block_result" where
  "all_blocks env options scriptText =
     and_then (stage1_block env scriptText)
       (and_then (stage2_block env scriptText)
          (and_then (visuals_block env options) (stage3_block env scriptText)))"

definition run_blocks ::
  "environment \<Rightarrow> visual_options option \<Rightarrow> string \<Rightarrow> project \<times> app_state \<Rightarrow> app_state" where
  "run_blocks env options scriptText w = finish (all_blocks env options scriptText w)"

text \<open>The working project of a run: the current one on resume, a fresh one otherwise.\<close>

definition working_project :: "bool \<Rightarrow> app_state \<Rightarrow> project" where
  "working_project isResuming st =
     (case (if isResuming then currentProject st else None) of
        Some p \<Rightarrow> p
      | None \<Rightarrow> createNewProject\<lparr>script := scriptToAnalyze st\<rparr>)"

text \<open>
  The state in which the first block is entered: the dialog closed, for a fresh run the stop
  flag cleared, the chosen options stored and the fresh project installed, and the error
  message cleared.
\<close>

definition entry_state :: "visual_options option \<Rightarrow> bool \<Rightarrow> app_state \<Rightarrow> app_state" where
  "entry_state options isResuming st =
     (let st1 = st\<lparr>isVisualsModalOpen := False\<rparr>;
          st2 = (if \<not> isResuming then st1\<lparr>shouldStop := False, visualOptions := options\<rparr> else st1);
          st3 = (if isResuming \<and> currentProject st \<noteq> None then st2
                 else st2\<lparr>currentProject := Some (working_project isResuming st),
                          fileHandle := None\<rparr>)
      in st3\<lparr>error := None\<rparr>)"

definition executeAnalysis ::
  "environment \<Rightarrow> visual_options option \<Rightarrow> bool \<Rightarrow> app_state \<Rightarrow> app_state" where
  "executeAnalysis env options isResuming st =
     (let st1 = st\<lparr>isVisualsModalOpen := False\<rparr>;
          st2 = (if \<not> isResuming then st1\<lparr>shouldStop := False, visualOptions := options\<rparr> else st1);
          scriptText = scriptToAnalyze st
      in if trim scriptText = [] then st2
         else run_blocks env options scriptText
                (working_project isResuming st, entry_state options isResuming st))"

text \<open>
  \<open>handleResumeAnalysis\<close>, together with the run that it starts and does not await, followed to
  the return of that run. The click on Resume at an arbitrary moment, also while another run
  is in flight, is \<open>click_on ClickResume\<close> in the section on clicks.
\<close>

definition handleResumeAnalysis :: "environment \<Rightarrow> app_state \<Rightarrow> app_state" where
  "handleResumeAnalysis env st =
     (case currentProject st of
        None \<Rightarrow> st
      | Some p \<Rightarrow> executeAnalysis env (visualOptions st) True (st\<lparr>shouldStop := False\<rparr>))"

text \<open>
  The two buttons of the visuals dialog, which is on screen only while \<open>isVisualsModalOpen\<close>
  holds: \<open>onGenerate\<close> passes the chosen options, \<open>onSkip\<close> passes null.
\<close>

definition visualsChoice :: "environment \<Rightarrow> visual_options option \<Rightarrow> app_state \<Rightarrow> app_state" where
  "visualsChoice env options st =
     (if isVisualsModalOpen st then executeAnalysis env options False st else st)"

text \<open>
  Starting an analysis is submitting the text (\<open>handleAnalysis\<close>) and then answering the
  dialog, if it opened.
\<close>

definition start :: "environment \<Rightarrow> string \<Rightarrow> visual_options option \<Rightarrow> app_state \<Rightarrow> app_state" where
  "start env scriptText options st = visualsChoice env options (handleAnalysis scriptText st)"

definition new_events :: "app_state \<Rightarrow> app_state \<Rightarrow> event list" where
  \<comment> \<open>what a run from \<open>st\<close> to \<open>st'\<close> added to the trace\<close>
  "new_events st st' = drop (length (trace st)) (trace st')"

section \<open>Observing a run\<close>

text \<open>The operations started in a stretch of the trace, in order.\<close>

fun started :: "event list \<Rightarrow> gateway_op list" where
  "started [] = []"
| "started (Started op # es) = op # started es"
| "started (e # es) = started es"

text \<open>
  Every operation that is started runs to its end: \<open>Started op\<close> is followed by
  \<open>Completed op\<close> or \<open>Failed op\<close>, with nothing in between but a click on Stop, and a click
  on Stop is recorded nowhere else.
\<close>

fun calls_closed :: "event list \<Rightarrow> bool" where
  "calls_closed [] = True"
| "calls_closed (Started op # StopRequested # e # es) =
     ((e = Completed op \<or> e = Failed op) \<and> calls_closed es)"
| "calls_closed (Started op # e # es) = ((e = Completed op \<or> e = Failed op) \<and> calls_closed es)"
| "calls_closed es = False"

text \<open>The operations started after a click on Stop (\<open>seen\<close>: Stop was clicked before).\<close>

fun late_starts :: "bool \<Rightarrow> event list \<Rightarrow> gateway_op list" where
  "late_starts seen [] = []"
| "late_starts seen (StopRequested # es) = late_starts True es"
| "late_starts seen (Started op # es) = (if seen then op # late_starts seen es else late_starts seen es)"
| "late_starts seen (e # es) = late_starts seen es"

definition is_Failed :: "event \<Rightarrow> bool" where
  "is_Failed e = (case e of Failed op \<Rightarrow> True | _ \<Rightarrow> False)"

text \<open>
  A stage-2 result without its images: what the analysis itself produced. Two results with
  the same image-free part differ by visual assets only.
\<close>

definition strip_visuals :: "stage2_result \<Rightarrow> stage2_result" where
  "strip_visuals r =
     r\<lparr>character_profiles := map (\<lambda>c. c\<lparr>image_base64 := None\<rparr>) (character_profiles r),
       comparable_titles_visuals := None, visual_style_images_base64 := None,
       concept_art_base64 := None, movie_poster_base64 := None\<rparr>"

text \<open>
  \<open>keeps p p'\<close>: project \<open>p'\<close> still holds every stage result that \<open>p\<close> holds: stage 1 and
  stage 3 (with the scenes) as they are, stage 2 up to visual assets.
\<close>

definition keeps :: "project \<Rightarrow> project \<Rightarrow> bool" where
  "keeps p p' =
     (script p' = script p \<and> project_id p' = project_id p \<and> project_name p' = project_name p \<and>
      (stage1Result p \<noteq> None \<longrightarrow> stage1Result p' = stage1Result p) \<and>
      (case stage2Result p of
         None \<Rightarrow> True
       | Some r \<Rightarrow>
           (case stage2Result p' of
              None \<Rightarrow> False
            | Some r' \<Rightarrow> strip_visuals r' = strip_visuals r)) \<and>
      (stage3Result p \<noteq> None \<longrightarrow>
         stage3Result p' = stage3Result p \<and> fullScenes p' = fullScenes p))"

text \<open>The logline and the extended synopsis that stage 2 receives as context.\<close>

definition stage2_context :: "project \<Rightarrow> string \<times> string" where
  "stage2_context ap =
     (case stage1Result ap of None \<Rightarrow> ([], []) | Some r \<Rightarrow> (logline r, synopsis_extended r))"

definition out_state :: "block_result \<Rightarrow> app_state" where
  "out_state r = (case r of Inl s \<Rightarrow> s | Inr (p, s) \<Rightarrow> s)"

text \<open>The stage results that are present once the blocks owning \<open>ops\<close> have fallen through.\<close>

definition results_present :: "gateway_op list \<Rightarrow> project \<Rightarrow> bool" where
  "results_present ops p =
     ((OpStage1 \<in> set ops \<longrightarrow> stage1Result p \<noteq> None) \<and>
      (OpStage2 \<in> set ops \<longrightarrow> stage2Result p \<noteq> None) \<and>
      (OpStage3 \<in> set ops \<longrightarrow> stage3Result p \<noteq> None))"

text \<open>
  The events agree with what the backend answered: an operation that is started ends, an
  operation ends only if it was started, \<open>Completed\<close> is recorded for an operation that
  returned and \<open>Failed\<close> for one that threw, and scene extraction is started exactly when
  the production breakdown has returned.
\<close>

definition outcomes_match :: "environment \<Rightarrow> string \<Rightarrow> event list \<Rightarrow> bool" where
  "outcomes_match env t ev =
     ((\<forall>op. Started op \<in> set ev \<longrightarrow> Completed op \<in> set ev \<or> Failed op \<in> set ev) \<and>
      (\<forall>op. Completed op \<in> set ev \<or> Failed op \<in> set ev \<longrightarrow> Started op \<in> set ev) \<and>
      (Completed OpStage1 \<in> set ev \<longrightarrow> \<not> isl (analyzeStage1 env t)) \<and>
      (Failed OpStage1 \<in> set ev \<longrightarrow> isl (analyzeStage1 env t)) \<and>
      (Completed OpStage3 \<in> set ev \<longrightarrow> \<not> isl (analyzeStage3 env t)) \<and>
      (Failed OpStage3 \<in> set ev \<longrightarrow> isl (analyzeStage3 env t)) \<and>
      (Completed OpScenes \<in> set ev \<longrightarrow> \<not> isl (extractScenes env t)) \<and>
      (Failed OpScenes \<in> set ev \<longrightarrow> isl (extractScenes env t)) \<and>
      (Completed OpStage3 \<in> set ev \<longleftrightarrow> Started OpScenes \<in> set ev))"

text \<open>
  \<open>merged env t ev p\<close>: project \<open>p\<close> holds the result of every stage that the events \<open>ev\<close>
  show as completed, as the backend returned it (stage 2 up to visual assets).
\<close>

definition merged :: "environment \<Rightarrow> string \<Rightarrow> event list \<Rightarrow> project \<Rightarrow> bool" where
  "merged env t ev p =
     ((Completed OpStage1 \<in> set ev \<longrightarrow>
         (\<exists>r. analyzeStage1 env t = Inr r \<and> stage1Result p = Some r)) \<and>
      (Completed OpStage2 \<in> set ev \<longrightarrow>
         (\<exists>r r' l s. analyzeStage2 env t l s = Inr r \<and> stage2Result p = Some r' \<and>
            strip_visuals r' = strip_visuals r)) \<and>
      (Completed OpScenes \<in> set ev \<longrightarrow>
         (\<exists>r sc. analyzeStage3 env t = Inr r \<and> extractScenes env t = Inr sc \<and>
            stage3Result p = Some r \<and> fullScenes p = Some sc)))"

text \<open>
  \<open>unmerged ev p p'\<close>: from \<open>p\<close> to \<open>p'\<close>, a stage field changes only if the events \<open>ev\<close> show
  its operation as completed.
\<close>

definition unmerged :: "event list \<Rightarrow> project \<Rightarrow> project \<Rightarrow> bool" where
  "unmerged ev p p' =
     ((Completed OpStage1 \<notin> set ev \<longrightarrow> stage1Result p' = stage1Result p) \<and>
      (Completed OpStage2 \<notin> set ev \<and> Completed OpVisuals \<notin> set ev \<longrightarrow>
         stage2Result p' = stage2Result p) \<and>
      (Completed OpScenes \<notin> set ev \<longrightarrow>
         stage3Result p' = stage3Result p \<and> fullScenes p' = fullScenes p))"

definition project_ok :: "environment \<Rightarrow> string \<Rightarrow> event list \<Rightarrow> project \<Rightarrow> project \<Rightarrow> bool" where
  "project_ok env t ev p p' = (keeps p p' \<and> merged env t ev p' \<and> unmerged ev p p')"

text \<open>
  What every block, and every sequence of blocks, guarantees for the operations \<open>ops\<close> it
  owns: \<open>segment_ok env t ops ap st r ev\<close> relates the working project and state at its entry
  to its result \<open>r\<close> and the events \<open>ev\<close> it adds to the trace.
\<close>

definition segment_ok ::
  "environment \<Rightarrow> string \<Rightarrow> gateway_op list \<Rightarrow> project \<Rightarrow> app_state \<Rightarrow> block_result \<Rightarrow>
   event list \<Rightarrow> bool" where
  "segment_ok env t ops ap st r ev =
     (trace (out_state r) = trace st @ ev \<and>
      scriptToAnalyze (out_state r) = scriptToAnalyze st \<and>
      visualOptions (out_state r) = visualOptions st \<and>
      calls_closed ev \<and>
      subseq (started ev) ops \<and>
      shouldStop (out_state r) = (shouldStop st \<or> StopRequested \<in> set ev) \<and>
      (shouldStop st \<longrightarrow> ev = []) \<and>
      set (late_starts False ev) \<subseteq> {OpScenes} \<and>
      (stage1Result ap \<noteq> None \<longrightarrow> OpStage1 \<notin> set (started ev)) \<and>
      (stage2Result ap \<noteq> None \<longrightarrow> OpStage2 \<notin> set (started ev)) \<and>
      (stage3Result ap \<noteq> None \<longrightarrow> OpStage3 \<notin> set (started ev) \<and> OpScenes \<notin> set (started ev)) \<and>
      outcomes_match env t ev \<and>
      (case r of
         Inl s \<Rightarrow>
           (status s = PAUSED \<and> shouldStop s \<and> (\<forall>e \<in> set ev. \<not> is_Failed e) \<or>
            status s = ERROR \<and> ev \<noteq> [] \<and> is_Failed (last ev) \<and>
              (\<forall>e \<in> set (butlast ev). \<not> is_Failed e)) \<and>
           (currentProject st = Some ap \<longrightarrow>
              (\<exists>p'. currentProject s = Some p' \<and> project_ok env t ev ap p'))
       | Inr (ap', s') \<Rightarrow>
           (\<forall>e \<in> set ev. \<not> is_Failed e) \<and> project_ok env t ev ap ap' \<and>
           results_present ops ap' \<and>
           (currentProject st = Some ap \<longrightarrow> currentProject s' = Some ap')))"

definition block_contract ::
  "environment \<Rightarrow> string \<Rightarrow> gateway_op list \<Rightarrow> (project \<times> app_state \<Rightarrow> block_result) \<Rightarrow> bool" where
  "block_contract env t ops f = (\<forall>ap st. \<exists>ev. segment_ok env t ops ap st (f (ap, st)) ev)"


text \<open>The characters whose portrait is requested in a stretch of visual events, in order.\<close>

fun portrait_requests :: "visual_event list \<Rightarrow> character_profile list" where
  "portrait_requests [] = []"
| "portrait_requests (ImagesCall (Portrait c) # es) = c # portrait_requests es"
| "portrait_requests (e # es) = portrait_requests es"

text \<open>
  What the loop over the main characters adds to \<open>character_portraits\<close> for one character:
  the image that the backend returned for it, if it returned one.
\<close>

definition portrait_of ::
  "environment \<Rightarrow> stage2_result \<Rightarrow> character_profile \<Rightarrow> character_portrait list" where
  "portrait_of env deck c =
     (case with_retry (be_images env deck (Portrait c)) of
        Inr imgs \<Rightarrow>
          if imageBytes0 imgs \<noteq> [] then
            [\<lparr>portrait_name = name c, portrait_image_base64 = imageBytes0 imgs\<rparr>]
          else []
      | Inl e \<Rightarrow> [])"

text \<open>The events of the operations \<open>ops\<close>, and the clicks on Stop.\<close>

definition events_of :: "gateway_op set \<Rightarrow> event set" where
  "events_of ops = {StopRequested} \<union> Started ` ops \<union> Completed ` ops \<union> Failed ` ops"

text \<open>The stage-2 call as the orchestrator makes it for a project with this stage-1 result.\<close>

definition stage2_call :: "environment \<Rightarrow> string \<Rightarrow> project \<Rightarrow> js_error + stage2_result" where
  "stage2_call env t p = analyzeStage2 env t (fst (stage2_context p)) (snd (stage2_context p))"

text \<open>
  The stage-2 result before any visuals of this run are merged into it: what the stage-2
  call returned if it completed in the events \<open>ev\<close>, the result of the project \<open>p\<close> at the
  start otherwise.
\<close>

definition stage2_base ::
  "environment \<Rightarrow> string \<Rightarrow> event list \<Rightarrow> project \<Rightarrow> project \<Rightarrow> stage2_result option" where
  "stage2_base env t ev p p' =
     (if Completed OpStage2 \<in> set ev
      then (case stage2_call env t p' of Inr r \<Rightarrow> Some r | Inl e \<Rightarrow> None)
      else stage2Result p)"

text \<open>
  \<open>stage2_exact env t options ev p p'\<close>: the stage-2 events agree with what the backend
  answered, and the stage-2 result of \<open>p'\<close> is exactly the base result, with the bundle of
  \<open>generateAllVisuals\<close> merged into it if, and only if, the visuals step completed.
\<close>

definition stage2_exact ::
  "environment \<Rightarrow> string \<Rightarrow> visual_options option \<Rightarrow> event list \<Rightarrow> project \<Rightarrow> project \<Rightarrow> bool" where
  "stage2_exact env t options ev p p' =
     ((Completed OpStage2 \<in> set ev \<longrightarrow> \<not> isl (stage2_call env t p')) \<and>
      (Failed OpStage2 \<in> set ev \<longrightarrow> isl (stage2_call env t p')) \<and>
      (Completed OpVisuals \<notin> set ev \<longrightarrow> stage2Result p' = stage2_base env t ev p p') \<and>
      (Completed OpVisuals \<in> set ev \<longrightarrow>
         (\<exists>opts r2. options = Some opts \<and> needVisuals options \<and>
            stage2_base env t ev p p' = Some r2 \<and>
            stage2Result p' =
              Some (mergeVisuals r2 (fst (generateAllVisuals env r2 opts))))))"

text \<open>
  A step among those owning \<open>ops\<close> is pending for project \<open>p\<close> after the events \<open>ev\<close>: a stage
  has no result, or the visuals are requested and the visuals step has not completed.
\<close>

definition pending_in ::
  "gateway_op set \<Rightarrow> visual_options option \<Rightarrow> event list \<Rightarrow> project \<Rightarrow> bool" where
  "pending_in ops options ev p =
     (OpStage1 \<in> ops \<and> stage1Result p = None \<or>
      OpStage2 \<in> ops \<and> stage2Result p = None \<or>
      OpVisuals \<in> ops \<and> needVisuals options \<and> Completed OpVisuals \<notin> set ev \<or>
      OpStage3 \<in> ops \<and> stage3Result p = None)"

definition pending :: "visual_options option \<Rightarrow> event list \<Rightarrow> project \<Rightarrow> bool" where
  "pending options ev p =
     (stage1Result p = None \<or> stage2Result p = None \<or>
      needVisuals options \<and> Completed OpVisuals \<notin> set ev \<or>
      stage3Result p = None)"

text \<open>
  What the blocks owning \<open>ops\<close>, run from the working project \<open>ap\<close> and the state \<open>st\<close>,
  guarantee about the project \<open>p'\<close> they leave and about a pause.
\<close>

definition tail_ok ::
  "environment \<Rightarrow> string \<Rightarrow> visual_options option \<Rightarrow> gateway_op set \<Rightarrow> project \<Rightarrow> app_state \<Rightarrow>
   block_result \<Rightarrow> event list \<Rightarrow> project \<Rightarrow> bool" where
  "tail_ok env t options ops ap st r ev p' =
     (trace (out_state r) = trace st @ ev \<and>
      currentProject (out_state r) = Some p' \<and>
      set ev \<subseteq> events_of ops \<and>
      stage2_exact env t options ev ap p' \<and>
      (OpStage1 \<notin> ops \<longrightarrow> stage1Result p' = stage1Result ap) \<and>
      (Failed OpVisuals \<in> set ev \<longrightarrow> stage2Result ap = None \<and> OpStage2 \<notin> ops) \<and>
      (Completed OpVisuals \<in> set ev \<and> \<not> stop_during env OpVisuals \<and> stage3Result ap = None \<longrightarrow>
         Started OpStage3 \<in> set ev) \<and>
      (case r of
         Inl s \<Rightarrow> status s = PAUSED \<longrightarrow> pending_in ops options ev p'
       | Inr (ap', s') \<Rightarrow>
           ap' = p' \<and> (OpVisuals \<in> ops \<and> needVisuals options \<longrightarrow> Completed OpVisuals \<in> set ev)))"
section \<open>Sample data\<close>

text \<open>Concrete inputs on which the theorems below are instantiated.\<close>

definition sample_script :: string where
  "sample_script = ''INT. ROOM - DAY A man enters.''"

definition alice :: character_profile where
  "alice = \<lparr>name = ''Alice'', description = ''A detective'', screen_presence = OnScreen,
     arc = ''Learns to trust'', motivation = ''Justice'', image_base64 = None\<rparr>"

definition narrator :: character_profile where
  "narrator = \<lparr>name = ''Narrator'', description = ''A voice'', screen_presence = OffScreen,
     arc = ''None'', motivation = ''None'', image_base64 = None\<rparr>"

definition bob :: character_profile where
  "bob = \<lparr>name = ''Bob'', description = ''A suspect'', screen_presence = OnScreen,
     arc = ''Confesses'', motivation = ''Fear'', image_base64 = None\<rparr>"

definition carol :: character_profile where
  "carol = \<lparr>name = ''Carol'', description = ''A witness'', screen_presence = OnScreen,
     arc = ''Speaks up'', motivation = ''Truth'', image_base64 = None\<rparr>"

definition sample_stage1 :: stage1_result where
  "sample_stage1 = \<lparr>page_count = 1, logline = ''A man enters a room.'',
     synopsis_brief = ''A man enters.'', synopsis_extended = ''A man enters a room by day.''\<rparr>"

definition sample_stage2 :: stage2_result where
  "sample_stage2 =
     \<lparr>title = ''The Room'', author = ''N/A'', genre = ''Drama'', tone = ''Quiet'',
      tone_and_mood_details = ''Still'', s2_logline = ''A man enters a room.'',
      world_and_setting = ''A room'', character_profiles = [alice, narrator, bob, carol],
      treatment = ''He enters.'', comparable_titles = [''Room''],
      comparable_titles_visuals = None, target_audience = ''Adults'',
      visual_style_suggestion = ''Natural light'', visual_style_images_base64 = None,
      concept_art_base64 = None, movie_poster_base64 = None\<rparr>"

definition sample_stage3 :: stage3_result where
  "sample_stage3 = \<lparr>total_shooting_days = 1, risk_assessment = []\<rparr>"

definition sample_scenes :: "full_scene list" where
  "sample_scenes =
     [\<lparr>scene_number = 1, heading = ''INT. ROOM - DAY'', content = ''A man enters.''\<rparr>]"

text \<open>
  A backend that answers every request at the first attempt, but has no portrait for Bob,
  and a user who never clicks Stop.
\<close>

definition env_ok :: environment where
  "env_ok =
     \<lparr>be_stage1 = (\<lambda>t n. Inr sample_stage1),
      be_stage2 = (\<lambda>t l s n. Inr sample_stage2),
      be_stage3 = (\<lambda>t n. Inr sample_stage3),
      be_scenes = (\<lambda>t n. Inr sample_scenes),
      be_images = (\<lambda>deck req n.
         if req = Portrait bob then Inl bad_request_error else Inr [''IMAGE'']),
      be_grounded = (\<lambda>t n. Inr [None, Some ''GROUNDED'']),
      stop_during = (\<lambda>op. False)\<rparr>"

text \<open>The same backend, with a user who clicks Stop while the named operation is awaited.\<close>

definition env_stop_at :: "gateway_op \<Rightarrow> environment" where
  "env_stop_at op = env_ok\<lparr>stop_during := (\<lambda>op'. op' = op)\<rparr>"

text \<open>A backend whose stage-3 analysis is refused, and one whose scene extraction is.\<close>

definition env_stage3_fails :: environment where
  "env_stage3_fails = env_ok\<lparr>be_stage3 := (\<lambda>t n. Inl bad_request_error)\<rparr>"

definition env_scenes_fail :: environment where
  "env_scenes_fail = env_ok\<lparr>be_scenes := (\<lambda>t n. Inl bad_request_error)\<rparr>"

text \<open>The application right after it is opened, and with a script typed in and submitted.\<close>

definition initial_state :: app_state where
  "initial_state =
     \<lparr>status = IDLE, error = None, currentProject = Some createNewProject,
      isVisualsModalOpen = False, scriptToAnalyze = [], visualOptions = None,
      shouldStop = False, fileHandle = None, trace = []\<rparr>"

definition submitted_state :: app_state where
  "submitted_state = initial_state\<lparr>scriptToAnalyze := sample_script, isVisualsModalOpen := True\<rparr>"

definition poster_only :: visual_options where
  "poster_only = \<lparr>poster = True, concept = False, characters = False\<rparr>"

definition characters_only :: visual_options where
  "characters_only = \<lparr>poster = False, concept = False, characters = True\<rparr>"

text \<open>
  A run that was paused after stage 2 and its visuals: stages 1 and 2 are in the project, the
  poster is there, stage 3 is not.
\<close>

definition paused_project :: project where
  "paused_project =
     createNewProject\<lparr>script := sample_script, stage1Result := Some sample_stage1,
       stage2Result := Some (sample_stage2\<lparr>movie_poster_base64 := Some ''IMAGE''\<rparr>)\<rparr>"

definition paused_state :: "visual_options option \<Rightarrow> app_state" where
  "paused_state options =
     \<lparr>status = PAUSED, error = None, currentProject = Some paused_project,
      isVisualsModalOpen = False, scriptToAnalyze = sample_script, visualOptions = options,
      shouldStop = True, fileHandle = None, trace = []\<rparr>"

text \<open>
  A pitch deck whose two main characters bear the same name; the backend has a portrait for
  the first of them and none for the second.
\<close>

definition bob_double :: character_profile where
  "bob_double = bob\<lparr>description := ''A man who looks like the suspect''\<rparr>"

definition twins_deck :: stage2_result where
  "twins_deck = sample_stage2\<lparr>character_profiles := [bob_double, bob]\<rparr>"
section \<open>Clicks while a call is awaited\<close>

text \<open>
  \<open>executeAnalysis\<close> is an \<open>async\<close> function: at every \<open>await\<close> it hands control back to the
  event loop, and until the awaited call settles the buttons on screen can be clicked.
  \<open>AnalysisInProgress\<close> shows the Stop button while the status is not \<open>PAUSED\<close>, and the
  Resume and Cancel buttons while it is; Stop sets \<open>PAUSED\<close> at once, so Resume and Cancel
  can be clicked while the stopped run still awaits its call. Resume calls
  \<open>executeAnalysis\<close> again without awaiting it, and nothing keeps the new run from
  overlapping with the stopped one; Cancel is \<open>handleNewProject\<close>. Both clear
  \<open>shouldStopRef\<close>.

  A run in flight is what its continuation reads: the local variable \<open>activeProject\<close>, the
  parameter \<open>options\<close>, the captured \<open>scriptText\<close>, the operation it awaits, and the production
  breakdown once that is back and the scenes are awaited.
\<close>

datatype click = ClickStop | ClickResume | ClickCancel

datatype action = Click click | Returns nat

record run =
  run_project :: project
  run_options :: "visual_options option"
  run_script :: string
  run_awaiting :: gateway_op
  run_breakdown :: "stage3_result option"

type_synonym config = "app_state \<times> run list"

text \<open>
  The synchronous stretches of \<open>executeAnalysis\<close>: from the entry of a block to the next
  \<open>await\<close> (the run is suspended there, its operation started) or to a \<open>return\<close>.
\<close>

definition suspend ::
  "gateway_op \<Rightarrow> visual_options option \<Rightarrow> string \<Rightarrow> project \<Rightarrow> app_state \<Rightarrow>
   app_state \<times> run option" where
  "suspend op options scriptText activeProject st =
     (st\<lparr>trace := trace st @ [Started op]\<rparr>,
      Some \<lparr>run_project = activeProject, run_options = options, run_script = scriptText,
            run_awaiting = op, run_breakdown = None\<rparr>)"

definition to_stage3 ::
  "visual_options option \<Rightarrow> string \<Rightarrow> project \<Rightarrow> app_state \<Rightarrow> app_state \<times> run option" where
  "to_stage3 options scriptText activeProject st =
     (if stage3Result activeProject = None then
        if shouldStop st then (st\<lparr>status := PAUSED\<rparr>, None)
        else suspend OpStage3 options scriptText activeProject (st\<lparr>status := ANALYZING_STAGE_3\<rparr>)
      else (st\<lparr>status := COMPLETE\<rparr>, None))"

definition to_visuals ::
  "visual_options option \<Rightarrow> string \<Rightarrow> project \<Rightarrow> app_state \<Rightarrow> app_state \<times> run option" where
  "to_visuals options scriptText activeProject st =
     (if needVisuals options then
        if shouldStop st then (st\<lparr>status := PAUSED\<rparr>, None)
        else suspend OpVisuals options scriptText activeProject
               (st\<lparr>status := ANALYZING_STAGE_2_VISUALS\<rparr>)
      else to_stage3 options scriptText activeProject st)"

definition to_stage2 ::
  "visual_options option \<Rightarrow> string \<Rightarrow> project \<Rightarrow> app_state \<Rightarrow> app_state \<times> run option" where
  "to_stage2 options scriptText activeProject st =
     (if stage2Result activeProject = None then
        if shouldStop st then (st\<lparr>status := PAUSED\<rparr>, None)
        else suspend OpStage2 options scriptText activeProject (st\<lparr>status := ANALYZING_STAGE_2\<rparr>)
      else to_visuals options scriptText activeProject st)"

definition to_stage1 ::
  "visual_options option \<Rightarrow> string \<Rightarrow> project \<Rightarrow> app_state \<Rightarrow> app_state \<times> run option" where
  "to_stage1 options scriptText activeProject st =
     (if stage1Result activeProject = None then
        if shouldStop st then (st\<lparr>status := PAUSED\<rparr>, None)
        else suspend OpStage1 options scriptText activeProject (st\<lparr>status := ANALYZING_STAGE_1\<rparr>)
      else to_stage2 options scriptText activeProject st)"

text \<open>The call of \<open>executeAnalysis\<close> up to its first \<open>await\<close> or \<open>return\<close>.\<close>

definition launch ::
  "visual_options option \<Rightarrow> bool \<Rightarrow> app_state \<Rightarrow> app_state \<times> run option" where
  "launch options isResuming st =
     (let st1 = st\<lparr>isVisualsModalOpen := False\<rparr>;
          st2 = (if \<not> isResuming then st1\<lparr>shouldStop := False, visualOptions := options\<rparr> else st1);
          scriptText = scriptToAnalyze st
      in if trim scriptText = [] then (st2, None)
         else to_stage1 options scriptText (working_project isResuming st)
                (entry_state options isResuming st))"

text \<open>
  The awaited call of a run settles: the run goes on from its \<open>await\<close>, with the value
  returned or into its \<open>catch\<close>, up to its next \<open>await\<close> or its \<open>return\<close>.
\<close>

definition settle :: "environment \<Rightarrow> run \<Rightarrow> app_state \<Rightarrow> app_state \<times> run option" where
  "settle env rn st =
     (let activeProject = run_project rn; options = run_options rn; scriptText = run_script rn in
      case run_awaiting rn of
        OpStage1 \<Rightarrow>
          (case analyzeStage1 env scriptText of
             Inr result1 \<Rightarrow>
               let activeProject' = activeProject\<lparr>stage1Result := Some result1\<rparr> in
               to_stage2 options scriptText activeProject'
                 ((end_call OpStage1 True st)\<lparr>currentProject := Some activeProject'\<rparr>)
           | Inl err \<Rightarrow> (handleError err (end_call OpStage1 False st), None))
      | OpStage2 \<Rightarrow>
          (let logl = (case stage1Result activeProject of None \<Rightarrow> [] | Some r \<Rightarrow> logline r);
               synopsis =
                 (case stage1Result activeProject of None \<Rightarrow> [] | Some r \<Rightarrow> synopsis_extended r)
           in case analyzeStage2 env scriptText logl synopsis of
                Inr result2 \<Rightarrow>
                  let activeProject' = activeProject\<lparr>stage2Result := Some result2\<rparr> in
                  to_visuals options scriptText activeProject'
                    ((end_call OpStage2 True st)\<lparr>currentProject := Some activeProject'\<rparr>)
              | Inl err \<Rightarrow> (handleError err (end_call OpStage2 False st), None))
      | OpVisuals \<Rightarrow>
          (case (stage2Result activeProject, options) of
             (Some result2, Some opts) \<Rightarrow>
               let visuals = fst (generateAllVisuals env result2 opts);
                   activeProject' =
                     activeProject\<lparr>stage2Result := Some (mergeVisuals result2 visuals)\<rparr>
               in to_stage3 options scriptText activeProject'
                    ((end_call OpVisuals True st)\<lparr>currentProject := Some activeProject'\<rparr>)
           | _ \<Rightarrow>
               (handleError (plain_error ''Cannot read properties of null'')
                  (end_call OpVisuals False st), None))
      | OpStage3 \<Rightarrow>
          (case analyzeStage3 env scriptText of
             Inl err \<Rightarrow> (handleError err (end_call OpStage3 False st), None)
           | Inr result3 \<Rightarrow>
               ((end_call OpStage3 True st)\<lparr>trace := trace st @ [Completed OpStage3, Started OpScenes]\<rparr>,
                Some (rn\<lparr>run_awaiting := OpScenes, run_breakdown := Some result3\<rparr>)))
      | OpScenes \<Rightarrow>
          (case extractScenes env scriptText of
             Inl err \<Rightarrow> (handleError err (end_call OpScenes False st), None)
           | Inr scenes \<Rightarrow>
               let activeProject' =
                     activeProject\<lparr>stage3Result := run_breakdown rn, fullScenes := Some scenes\<rparr>
               in ((end_call OpScenes True st)
                     \<lparr>currentProject := Some activeProject', status := COMPLETE\<rparr>, None)))"

text \<open>
  The runs in flight are kept in the order in which they were started. A run that is
  started is added at the end; a run that returns is taken out.
\<close>

definition spawn :: "app_state \<times> run option \<Rightarrow> run list \<Rightarrow> config" where
  "spawn r runs = (fst r, runs @ (case snd r of None \<Rightarrow> [] | Some rn \<Rightarrow> [rn]))"

definition click_on :: "click \<Rightarrow> config \<Rightarrow> config" where
  "click_on c cfg =
     (let st = fst cfg; runs = snd cfg in
      case c of
        ClickStop \<Rightarrow> (handleStopAnalysis (st\<lparr>trace := trace st @ [StopRequested]\<rparr>), runs)
      | ClickResume \<Rightarrow>
          (case currentProject st of
             None \<Rightarrow> (st, runs)
           | Some p \<Rightarrow> spawn (launch (visualOptions st) True (st\<lparr>shouldStop := False\<rparr>)) runs)
      | ClickCancel \<Rightarrow> (handleNewProject st, runs))"

definition returns :: "environment \<Rightarrow> nat \<Rightarrow> config \<Rightarrow> config" where
  "returns env k cfg =
     (let st = fst cfg; runs = snd cfg in
      if k < length runs then
        (case settle env (runs ! k) st of
           (st', None) \<Rightarrow> (st', take k runs @ drop (Suc k) runs)
         | (st', Some rn) \<Rightarrow> (st', runs[k := rn]))
      else (st, runs))"

definition step :: "environment \<Rightarrow> action \<Rightarrow> config \<Rightarrow> config" where
  "step env a cfg = (case a of Click c \<Rightarrow> click_on c cfg | Returns k \<Rightarrow> returns env k cfg)"

definition exec :: "environment \<Rightarrow> action list \<Rightarrow> config \<Rightarrow> config" where
  "exec env acts cfg = foldl (\<lambda>c a. step env a c) cfg acts"

text \<open>
  The schedule behind \<open>executeAnalysis\<close> of the previous sections: while the first run in
  flight awaits a call, Stop is clicked if \<open>stop_during\<close> says so and nothing else is, and then
  the call settles; \<open>n\<close> bounds the number of calls.
\<close>

fun drive :: "environment \<Rightarrow> nat \<Rightarrow> config \<Rightarrow> config" where
  "drive env 0 cfg = cfg"
| "drive env (Suc n) (st, []) = (st, [])"
| "drive env (Suc n) (st, rn # runs) =
     drive env n
       (step env (Returns 0)
          (if stop_during env (run_awaiting rn) then step env (Click ClickStop) (st, rn # runs)
           else (st, rn # runs)))"
section \<open>Properties of the retry policy\<close>

lemma rate_limit_error_transient: "isRateLimit rate_limit_error"
  by (simp add: rate_limit_error_def plain_error_def isRateLimit_def)

lemma bad_request_error_not_transient:
  "\<not> isRateLimit bad_request_error" "\<not> isServerOverload bad_request_error"
  by (simp_all add: bad_request_error_def plain_error_def isRateLimit_def isServerOverload_def
      error_code_def error_statusText_def or_num_def or_str_def truthy_num_def)

lemma retryWithBackoff_Inr:
  "operation n = Inr v \<Longrightarrow> retryWithBackoff operation n retries delay factor = (Inr v, Suc n, [])"
  by (subst retryWithBackoff.simps) simp

lemma retryWithBackoff_give_up:
  "operation n = Inl err \<Longrightarrow> \<not> (retries > 0 \<and> (isRateLimit err \<or> isServerOverload err)) \<Longrightarrow>
   retryWithBackoff operation n retries delay factor = (Inl err, Suc n, [])"
  by (subst retryWithBackoff.simps) auto

lemma retryWithBackoff_again:
  "operation n = Inl err \<Longrightarrow> isRateLimit err \<or> isServerOverload err \<Longrightarrow>
   retryWithBackoff operation (Suc n) retries (delay * factor) factor = (res, k, ds) \<Longrightarrow>
   retryWithBackoff operation n (Suc retries) delay factor = (res, k, delay # ds)"
  by (subst retryWithBackoff.simps) simp

lemma single_attempt_shape:
  assumes "res = operation n" "k = Suc n" "ds = []"
    and "\<And>e. res = Inl e \<Longrightarrow> isTransient e \<Longrightarrow> retries = 0"
  shows "n < k \<and> k \<le> n + retries + 1 \<and> res = operation (k - 1) \<and>
     ds = map (\<lambda>i. delay * factor ^ i) [0..<k - n - 1] \<and>
     (\<forall>i. n \<le> i \<and> i < k - 1 \<longrightarrow> (\<exists>e. operation i = Inl e \<and> isTransient e)) \<and>
     (\<forall>e. res = Inl e \<and> isTransient e \<longrightarrow> k = n + retries + 1)"
proof (intro conjI allI impI)
  show "n < k" "k \<le> n + retries + 1" "res = operation (k - 1)"
    "ds = map (\<lambda>i. delay * factor ^ i) [0..<k - n - 1]"
    using assms(1-3) by simp_all
next
  fix i assume "n \<le> i \<and> i < k - 1"
  with assms(2) have False by auto
  then show "\<exists>e. operation i = Inl e \<and> isTransient e" ..
next
  fix e assume "res = Inl e \<and> isTransient e"
  with assms(4) have "retries = 0" by blast
  with assms(2) show "k = n + retries + 1" by simp
qed

lemma upt_0_Suc: "[0..<Suc m] = 0 # map Suc [0..<m]"
  by (simp add: upt_conv_Cons map_Suc_upt del: upt_Suc)

lemma retryWithBackoff_shape:
  "retryWithBackoff operation n retries delay factor = (res, k, ds) \<Longrightarrow>
     n < k \<and> k \<le> n + retries + 1 \<and> res = operation (k - 1) \<and>
     ds = map (\<lambda>i. delay * factor ^ i) [0..<k - n - 1] \<and>
     (\<forall>i. n \<le> i \<and> i < k - 1 \<longrightarrow> (\<exists>e. operation i = Inl e \<and> isTransient e)) \<and>
     (\<forall>e. res = Inl e \<and> isTransient e \<longrightarrow> k = n + retries + 1)"
proof (induction retries arbitrary: n delay res k ds)
  case 0
  show ?case
  proof (cases "operation n")
    case (Inr v)
    have "retryWithBackoff operation n 0 delay factor = (Inr v, Suc n, [])"
      by (rule retryWithBackoff_Inr) (rule Inr)
    with "0.prems" have "res = Inr v" "k = Suc n" "ds = []" by simp_all
    with Inr show ?thesis by (intro single_attempt_shape) simp_all
  next
    case (Inl err)
    have "retryWithBackoff operation n 0 delay factor = (Inl err, Suc n, [])"
      by (rule retryWithBackoff_give_up) (simp_all add: Inl)
    with "0.prems" have "res = Inl err" "k = Suc n" "ds = []" by simp_all
    with Inl show ?thesis by (intro single_attempt_shape) simp_all
  qed
next
  case (Suc retries)
  show ?case
  proof (cases "operation n")
    case (Inr v)
    have "retryWithBackoff operation n (Suc retries) delay factor = (Inr v, Suc n, [])"
      by (rule retryWithBackoff_Inr) (rule Inr)
    with Suc.prems have "res = Inr v" "k = Suc n" "ds = []" by simp_all
    with Inr show ?thesis by (intro single_attempt_shape) simp_all
  next
    case (Inl err)
    show ?thesis
    proof (cases "isRateLimit err \<or> isServerOverload err")
      case False
      have "retryWithBackoff operation n (Suc retries) delay factor = (Inl err, Suc n, [])"
        by (rule retryWithBackoff_give_up) (simp_all add: Inl False)
      with Suc.prems have "res = Inl err" "k = Suc n" "ds = []" by simp_all
      with Inl False show ?thesis
        by (intro single_attempt_shape) (simp_all add: isTransient_def)
    next
      case True
      obtain res' k' ds' where rec:
        "retryWithBackoff operation (Suc n) retries (delay * factor) factor = (res', k', ds')"
        by (cases "retryWithBackoff operation (Suc n) retries (delay * factor) factor") auto
      have "retryWithBackoff operation n (Suc retries) delay factor = (res', k', delay # ds')"
        by (rule retryWithBackoff_again) (rule Inl True rec)+
      with Suc.prems have "(res, k, ds) = (res', k', delay # ds')"
        by (rule trans [OF sym])
      then have eqs: "res = res'" "k = k'" "ds = delay # ds'"
        by simp_all
      note ih = Suc.IH [OF rec]
      have ih_k: "Suc n < k'" "k' \<le> Suc n + retries + 1"
        using ih by blast+
      have ih_res: "res' = operation (k' - 1)"
        using ih by blast
      have ih_ds: "ds' = map (\<lambda>i. delay * factor * factor ^ i) [0..<k' - Suc n - 1]"
        using ih by blast
      have ih_before: "\<exists>e. operation i = Inl e \<and> isTransient e" if "Suc n \<le> i \<and> i < k' - 1" for i
        using ih that by blast
      have ih_last: "k' = Suc n + retries + 1" if "res' = Inl e \<and> isTransient e" for e
        using ih that by blast
      show ?thesis
        unfolding eqs
      proof (intro conjI allI impI)
        show "n < k'" "k' \<le> n + Suc retries + 1"
          using ih_k by arith+
        show "res' = operation (k' - 1)"
          by (rule ih_res)
        have "k' - n - 1 = Suc (k' - Suc n - 1)"
          using ih_k by arith
        then have "[0..<k' - n - 1] = 0 # map Suc [0..<k' - Suc n - 1]"
          by (simp only: upt_0_Suc)
        then show "delay # ds' = map (\<lambda>i. delay * factor ^ i) [0..<k' - n - 1]"
          by (simp add: ih_ds comp_def mult.assoc)
      next
        fix i assume i: "n \<le> i \<and> i < k' - 1"
        show "\<exists>e. operation i = Inl e \<and> isTransient e"
        proof (cases "i = n")
          case True
          with Inl \<open>isRateLimit err \<or> isServerOverload err\<close> show ?thesis
            by (simp add: isTransient_def)
        next
          case False
          with i have "Suc n \<le> i \<and> i < k' - 1" by arith
          then show ?thesis by (rule ih_before)
        qed
      next
        fix e assume "res' = Inl e \<and> isTransient e"
        then have "k' = Suc n + retries + 1" by (rule ih_last)
        then show "k' = n + Suc retries + 1" by simp
      qed
    qed
  qed
qed

text \<open>
  C3 (as amended). Every operation wrapped by the retry policy is invoked at least once and at
  most five times: the first attempt and up to four retries. One delay is slept before each
  retry, 2000 ms before the first and each later one twice the one before. Every attempt but the last
  failed with a transient error, and the caller receives exactly the outcome of the last
  attempt: so a non-transient failure is handed on unchanged with no retry after it, and
  a transient failure reaches the caller only when it is the one of the fifth attempt.
\<close>

theorem retry_policy:
  "retryWithBackoff_default operation = (res, k, ds) \<Longrightarrow>
     1 \<le> k \<and> k \<le> 5 \<and>
     ds = map (\<lambda>i. 2000 * 2 ^ i) [0..<k - 1] \<and>
     res = operation (k - 1) \<and>
     (\<forall>i < k - 1. \<exists>e. operation i = Inl e \<and> isTransient e) \<and>
     (\<forall>e. operation 0 = Inl e \<and> \<not> isTransient e \<longrightarrow> k = 1 \<and> res = Inl e \<and> ds = []) \<and>
     (\<forall>e. res = Inl e \<and> isTransient e \<longrightarrow> k = 5)"
proof -
  assume run: "retryWithBackoff_default operation = (res, k, ds)"
  then have "retryWithBackoff operation 0 4 2000 2 = (res, k, ds)"
    by (simp add: retryWithBackoff_default_def)
  note shape = retryWithBackoff_shape [OF this]
  have "0 < k \<and> k \<le> 0 + 4 + 1"
    using shape by blast
  then have k: "1 \<le> k" "k \<le> 5"
    by arith+
  have res: "res = operation (k - 1)"
    using shape by blast
  have "ds = map (\<lambda>i. 2000 * 2 ^ i) [0..<k - 0 - 1]"
    using shape by blast
  then have ds: "ds = map (\<lambda>i. 2000 * 2 ^ i) [0..<k - 1]"
    by simp
  have before: "\<exists>e. operation i = Inl e \<and> isTransient e" if "i < k - 1" for i
    using shape that by blast
  have last: "k = 5" if "res = Inl e \<and> isTransient e" for e
  proof -
    have "k = 0 + 4 + 1" using shape that by blast
    then show ?thesis by simp
  qed
  have first: "k = 1 \<and> res = Inl e \<and> ds = []"
    if "operation 0 = Inl e \<and> \<not> isTransient e" for e
  proof -
    have "k = 1"
    proof (rule ccontr)
      assume "k \<noteq> 1"
      with k have "0 < k - 1" by arith
      then obtain e' where "operation 0 = Inl e' \<and> isTransient e'"
        using before by blast
      with that show False by simp
    qed
    with res that ds show ?thesis by simp
  qed
  show ?thesis
  proof (intro conjI allI impI)
    show "1 \<le> k" "k \<le> 5" by (rule k)+
    show "ds = map (\<lambda>i. 2000 * 2 ^ i) [0..<k - 1]" by (rule ds)
    show "res = operation (k - 1)" by (rule res)
  next
    fix i assume "i < k - 1"
    then show "\<exists>e. operation i = Inl e \<and> isTransient e" by (rule before)
  next
    fix e assume a: "operation 0 = Inl e \<and> \<not> isTransient e"
    show "k = 1" "res = Inl e" "ds = []" using first [OF a] by simp_all
  next
    fix e assume "res = Inl e \<and> isTransient e"
    then show "k = 5" by (rule last)
  qed
qed

theorem retry_policy_witness:
  "retryWithBackoff_default always_bad_request = (Inl bad_request_error, 1, []) \<and>
   always_bad_request 0 = Inl bad_request_error \<and> \<not> isTransient bad_request_error"
proof -
  have run: "retryWithBackoff_default always_bad_request = (Inl bad_request_error, 1, [])"
    by (simp add: retryWithBackoff_default_def retryWithBackoff.simps always_bad_request_def
        bad_request_error_not_transient)
  show ?thesis
    using retry_policy [OF run] run
    by (simp add: always_bad_request_def isTransient_def bad_request_error_not_transient)
qed

text \<open>
  The claim's bound of four attempts in total fails: an operation that is rate-limited on
  every attempt is invoked five times before its error is handed on.
\<close>

theorem retry_attempts_counterexample:
  "retryWithBackoff_default always_rate_limited =
     (Inl rate_limit_error, 5, [2000, 4000, 8000, 16000])"
  by (simp add: retryWithBackoff_default_def retryWithBackoff.simps always_rate_limited_def
      rate_limit_error_transient)

section \<open>The blocks of the orchestrator\<close>

lemma handleError_proj [simp]:
  "trace (handleError e s) = trace s"
  "scriptToAnalyze (handleError e s) = scriptToAnalyze s"
  "visualOptions (handleError e s) = visualOptions s"
  "status (handleError e s) = ERROR"
  "currentProject (handleError e s) = currentProject s"
  "shouldStop (handleError e s) = shouldStop s"
  by (simp_all add: handleError_def Let_def)

lemma begin_call_proj [simp]:
  "trace (begin_call env op s) =
     trace s @ Started op # (if stop_during env op then [StopRequested] else [])"
  "status (begin_call env op s) = (if stop_during env op then PAUSED else status s)"
  "scriptToAnalyze (begin_call env op s) = scriptToAnalyze s"
  "visualOptions (begin_call env op s) = visualOptions s"
  "currentProject (begin_call env op s) = currentProject s"
  "shouldStop (begin_call env op s) = (shouldStop s \<or> stop_during env op)"
  by (simp_all add: begin_call_def handleStopAnalysis_def)

lemma end_call_proj [simp]:
  "trace (end_call op ok s) = trace s @ [if ok then Completed op else Failed op]"
  "status (end_call op ok s) = status s"
  "scriptToAnalyze (end_call op ok s) = scriptToAnalyze s"
  "visualOptions (end_call op ok s) = visualOptions s"
  "currentProject (end_call op ok s) = currentProject s"
  "shouldStop (end_call op ok s) = shouldStop s"
  by (simp_all add: end_call_def)

lemma keeps_refl [simp]: "keeps p p"
  by (simp add: keeps_def split: option.splits)

lemma keeps_trans: "keeps p q \<Longrightarrow> keeps q r \<Longrightarrow> keeps p r"
  by (auto simp: keeps_def split: option.splits)

lemma strip_visuals_mergeVisuals [simp]: "strip_visuals (mergeVisuals r v) = strip_visuals r"
  by (simp add: strip_visuals_def mergeVisuals_def Let_def patchProfile_def comp_def
      split: option.splits)

subsection \<open>Each block, case by case\<close>

lemma stage1_block_skip:
  "stage1Result ap \<noteq> None \<Longrightarrow> stage1_block env t (ap, st) = Inr (ap, st)"
  by (auto simp: stage1_block_def)

lemma stage1_block_paused:
  "stage1Result ap = None \<Longrightarrow> shouldStop st \<Longrightarrow>
   stage1_block env t (ap, st) = Inl (st\<lparr>status := PAUSED\<rparr>)"
  by (simp add: stage1_block_def)

lemma stage1_block_ok:
  "stage1Result ap = None \<Longrightarrow> \<not> shouldStop st \<Longrightarrow> analyzeStage1 env t = Inr r1 \<Longrightarrow>
   stage1_block env t (ap, st) =
     Inr (ap\<lparr>stage1Result := Some r1\<rparr>,
          (end_call OpStage1 True (begin_call env OpStage1 (st\<lparr>status := ANALYZING_STAGE_1\<rparr>)))
            \<lparr>currentProject := Some (ap\<lparr>stage1Result := Some r1\<rparr>)\<rparr>)"
  by (simp add: stage1_block_def Let_def)

lemma stage1_block_fail:
  "stage1Result ap = None \<Longrightarrow> \<not> shouldStop st \<Longrightarrow> analyzeStage1 env t = Inl e \<Longrightarrow>
   stage1_block env t (ap, st) =
     Inl (handleError e
           (end_call OpStage1 False (begin_call env OpStage1 (st\<lparr>status := ANALYZING_STAGE_1\<rparr>))))"
  by (simp add: stage1_block_def Let_def)

lemma stage2_block_skip:
  "stage2Result ap \<noteq> None \<Longrightarrow> stage2_block env t (ap, st) = Inr (ap, st)"
  by (auto simp: stage2_block_def)

lemma stage2_block_paused:
  "stage2Result ap = None \<Longrightarrow> shouldStop st \<Longrightarrow>
   stage2_block env t (ap, st) = Inl (st\<lparr>status := PAUSED\<rparr>)"
  by (simp add: stage2_block_def)

lemma stage2_block_ok:
  "stage2Result ap = None \<Longrightarrow> \<not> shouldStop st \<Longrightarrow>
   analyzeStage2 env t (fst (stage2_context ap)) (snd (stage2_context ap)) = Inr r2 \<Longrightarrow>
   stage2_block env t (ap, st) =
     Inr (ap\<lparr>stage2Result := Some r2\<rparr>,
          (end_call OpStage2 True (begin_call env OpStage2 (st\<lparr>status := ANALYZING_STAGE_2\<rparr>)))
            \<lparr>currentProject := Some (ap\<lparr>stage2Result := Some r2\<rparr>)\<rparr>)"
  by (simp add: stage2_block_def stage2_context_def Let_def split: option.splits)

lemma stage2_block_fail:
  "stage2Result ap = None \<Longrightarrow> \<not> shouldStop st \<Longrightarrow>
   analyzeStage2 env t (fst (stage2_context ap)) (snd (stage2_context ap)) = Inl e \<Longrightarrow>
   stage2_block env t (ap, st) =
     Inl (handleError e
           (end_call OpStage2 False (begin_call env OpStage2 (st\<lparr>status := ANALYZING_STAGE_2\<rparr>))))"
  by (simp add: stage2_block_def stage2_context_def Let_def split: option.splits)

lemma visuals_block_skip:
  "\<not> needVisuals options \<Longrightarrow> visuals_block env options (ap, st) = Inr (ap, st)"
  by (auto simp: visuals_block_def split: option.splits)

lemma visuals_block_paused:
  "needVisuals options \<Longrightarrow> shouldStop st \<Longrightarrow>
   visuals_block env options (ap, st) = Inl (st\<lparr>status := PAUSED\<rparr>)"
  by (auto simp: visuals_block_def needVisuals_def split: option.splits)

lemma visuals_block_ok:
  "needVisuals (Some opts) \<Longrightarrow> \<not> shouldStop st \<Longrightarrow> stage2Result ap = Some r2 \<Longrightarrow>
   visuals_block env (Some opts) (ap, st) =
     Inr (ap\<lparr>stage2Result := Some (mergeVisuals r2 (fst (generateAllVisuals env r2 opts)))\<rparr>,
          (end_call OpVisuals True
             (begin_call env OpVisuals (st\<lparr>status := ANALYZING_STAGE_2_VISUALS\<rparr>)))
            \<lparr>currentProject :=
               Some (ap\<lparr>stage2Result :=
                 Some (mergeVisuals r2 (fst (generateAllVisuals env r2 opts)))\<rparr>)\<rparr>)"
  by (simp add: visuals_block_def Let_def)

lemma visuals_block_fail:
  "needVisuals (Some opts) \<Longrightarrow> \<not> shouldStop st \<Longrightarrow> stage2Result ap = None \<Longrightarrow>
   visuals_block env (Some opts) (ap, st) =
     Inl (handleError (plain_error ''Cannot read properties of null'')
           (end_call OpVisuals False
              (begin_call env OpVisuals (st\<lparr>status := ANALYZING_STAGE_2_VISUALS\<rparr>))))"
  by (simp add: visuals_block_def Let_def)

lemma stage3_block_skip:
  "stage3Result ap \<noteq> None \<Longrightarrow> stage3_block env t (ap, st) = Inr (ap, st)"
  by (auto simp: stage3_block_def)

lemma stage3_block_paused:
  "stage3Result ap = None \<Longrightarrow> shouldStop st \<Longrightarrow>
   stage3_block env t (ap, st) = Inl (st\<lparr>status := PAUSED\<rparr>)"
  by (simp add: stage3_block_def)

lemma stage3_block_ok:
  "stage3Result ap = None \<Longrightarrow> \<not> shouldStop st \<Longrightarrow> analyzeStage3 env t = Inr r3 \<Longrightarrow>
   extractScenes env t = Inr sc \<Longrightarrow>
   stage3_block env t (ap, st) =
     Inr (ap\<lparr>stage3Result := Some r3, fullScenes := Some sc\<rparr>,
          (end_call OpScenes True
             (begin_call env OpScenes
                (end_call OpStage3 True
                   (begin_call env OpStage3 (st\<lparr>status := ANALYZING_STAGE_3\<rparr>)))))
            \<lparr>currentProject := Some (ap\<lparr>stage3Result := Some r3, fullScenes := Some sc\<rparr>)\<rparr>)"
  by (simp add: stage3_block_def Let_def)

lemma stage3_block_fail_stage3:
  "stage3Result ap = None \<Longrightarrow> \<not> shouldStop st \<Longrightarrow> analyzeStage3 env t = Inl e \<Longrightarrow>
   stage3_block env t (ap, st) =
     Inl (handleError e
           (end_call OpStage3 False (begin_call env OpStage3 (st\<lparr>status := ANALYZING_STAGE_3\<rparr>))))"
  by (simp add: stage3_block_def Let_def)

lemma stage3_block_fail_scenes:
  "stage3Result ap = None \<Longrightarrow> \<not> shouldStop st \<Longrightarrow> analyzeStage3 env t = Inr r3 \<Longrightarrow>
   extractScenes env t = Inl e \<Longrightarrow>
   stage3_block env t (ap, st) =
     Inl (handleError e
           (end_call OpScenes False
              (begin_call env OpScenes
                 (end_call OpStage3 True
                    (begin_call env OpStage3 (st\<lparr>status := ANALYZING_STAGE_3\<rparr>))))))"
  by (simp add: stage3_block_def Let_def)

subsection \<open>Each block keeps the contract\<close>

lemmas contract_defs =
  segment_ok_def out_state_def project_ok_def merged_def unmerged_def outcomes_match_def
  results_present_def is_Failed_def keeps_def

lemma stage1_contract: "block_contract env t [OpStage1] (stage1_block env t)"
  unfolding block_contract_def
proof (intro allI)
  fix ap st
  let ?r = "stage1_block env t (ap, st)"
  let ?pre = "Started OpStage1 # (if stop_during env OpStage1 then [StopRequested] else [])"
  consider (skip) "stage1Result ap \<noteq> None"
    | (paused) "stage1Result ap = None" "shouldStop st"
    | (ok) r1 where "stage1Result ap = None" "\<not> shouldStop st" "analyzeStage1 env t = Inr r1"
    | (fail) e where "stage1Result ap = None" "\<not> shouldStop st" "analyzeStage1 env t = Inl e"
    by (cases "analyzeStage1 env t") auto
  then show "\<exists>ev. segment_ok env t [OpStage1] ap st ?r ev"
  proof cases
    case skip
    then have "segment_ok env t [OpStage1] ap st ?r []"
      by (auto simp: stage1_block_skip contract_defs split: option.splits)
    then show ?thesis ..
  next
    case paused
    then have "segment_ok env t [OpStage1] ap st ?r []"
      by (auto simp: stage1_block_paused contract_defs split: option.splits)
    then show ?thesis ..
  next
    case ok
    then have "segment_ok env t [OpStage1] ap st ?r (?pre @ [Completed OpStage1])"
      by (auto simp: stage1_block_ok contract_defs split: option.splits)
    then show ?thesis ..
  next
    case fail
    then have "segment_ok env t [OpStage1] ap st ?r (?pre @ [Failed OpStage1])"
      by (auto simp: stage1_block_fail contract_defs split: option.splits)
    then show ?thesis ..
  qed
qed

lemma stage2_contract: "block_contract env t [OpStage2] (stage2_block env t)"
  unfolding block_contract_def
proof (intro allI)
  fix ap st
  let ?r = "stage2_block env t (ap, st)"
  let ?call = "analyzeStage2 env t (fst (stage2_context ap)) (snd (stage2_context ap))"
  let ?pre = "Started OpStage2 # (if stop_during env OpStage2 then [StopRequested] else [])"
  consider (skip) "stage2Result ap \<noteq> None"
    | (paused) "stage2Result ap = None" "shouldStop st"
    | (ok) r2 where "stage2Result ap = None" "\<not> shouldStop st" "?call = Inr r2"
    | (fail) e where "stage2Result ap = None" "\<not> shouldStop st" "?call = Inl e"
    by (cases ?call) auto
  then show "\<exists>ev. segment_ok env t [OpStage2] ap st ?r ev"
  proof cases
    case skip
    then have "segment_ok env t [OpStage2] ap st ?r []"
      by (auto simp: stage2_block_skip contract_defs split: option.splits)
    then show ?thesis ..
  next
    case paused
    then have "segment_ok env t [OpStage2] ap st ?r []"
      by (auto simp: stage2_block_paused contract_defs split: option.splits)
    then show ?thesis ..
  next
    case ok
    then have "segment_ok env t [OpStage2] ap st ?r (?pre @ [Completed OpStage2])"
      by (auto simp: stage2_block_ok contract_defs split: option.splits)
    then show ?thesis ..
  next
    case fail
    then have "segment_ok env t [OpStage2] ap st ?r (?pre @ [Failed OpStage2])"
      by (auto simp: stage2_block_fail contract_defs split: option.splits)
    then show ?thesis ..
  qed
qed

lemma visuals_contract: "block_contract env t [OpVisuals] (visuals_block env options)"
  unfolding block_contract_def
proof (intro allI)
  fix ap st
  let ?r = "visuals_block env options (ap, st)"
  let ?pre = "Started OpVisuals # (if stop_during env OpVisuals then [StopRequested] else [])"
  consider (skip) "\<not> needVisuals options"
    | (paused) "needVisuals options" "shouldStop st"
    | (ok) opts r2 where "options = Some opts" "needVisuals (Some opts)" "\<not> shouldStop st"
        "stage2Result ap = Some r2"
    | (fail) opts where "options = Some opts" "needVisuals (Some opts)" "\<not> shouldStop st"
        "stage2Result ap = None"
    by (cases options; cases "stage2Result ap") (auto simp: needVisuals_def)
  then show "\<exists>ev. segment_ok env t [OpVisuals] ap st ?r ev"
  proof cases
    case skip
    then have "segment_ok env t [OpVisuals] ap st ?r []"
      by (auto simp: visuals_block_skip contract_defs split: option.splits)
    then show ?thesis ..
  next
    case paused
    then have "segment_ok env t [OpVisuals] ap st ?r []"
      by (auto simp: visuals_block_paused contract_defs split: option.splits)
    then show ?thesis ..
  next
    case ok
    then have "segment_ok env t [OpVisuals] ap st ?r (?pre @ [Completed OpVisuals])"
      by (auto simp: visuals_block_ok contract_defs split: option.splits)
    then show ?thesis ..
  next
    case fail
    then have "segment_ok env t [OpVisuals] ap st ?r (?pre @ [Failed OpVisuals])"
      by (auto simp: visuals_block_fail contract_defs split: option.splits)
    then show ?thesis ..
  qed
qed

lemma stage3_contract: "block_contract env t [OpStage3, OpScenes] (stage3_block env t)"
  unfolding block_contract_def
proof (intro allI)
  fix ap st
  let ?r = "stage3_block env t (ap, st)"
  let ?pre3 = "Started OpStage3 # (if stop_during env OpStage3 then [StopRequested] else [])"
  let ?preS = "Started OpScenes # (if stop_during env OpScenes then [StopRequested] else [])"
  consider (skip) "stage3Result ap \<noteq> None"
    | (paused) "stage3Result ap = None" "shouldStop st"
    | (ok) r3 sc where "stage3Result ap = None" "\<not> shouldStop st" "analyzeStage3 env t = Inr r3"
        "extractScenes env t = Inr sc"
    | (fail3) e where "stage3Result ap = None" "\<not> shouldStop st" "analyzeStage3 env t = Inl e"
    | (failS) r3 e where "stage3Result ap = None" "\<not> shouldStop st"
        "analyzeStage3 env t = Inr r3" "extractScenes env t = Inl e"
    by (cases "analyzeStage3 env t"; cases "extractScenes env t") auto
  then show "\<exists>ev. segment_ok env t [OpStage3, OpScenes] ap st ?r ev"
  proof cases
    case skip
    then have "segment_ok env t [OpStage3, OpScenes] ap st ?r []"
      by (auto simp: stage3_block_skip contract_defs split: option.splits)
    then show ?thesis ..
  next
    case paused
    then have "segment_ok env t [OpStage3, OpScenes] ap st ?r []"
      by (auto simp: stage3_block_paused contract_defs split: option.splits)
    then show ?thesis ..
  next
    case ok
    then have "segment_ok env t [OpStage3, OpScenes] ap st ?r
        (?pre3 @ Completed OpStage3 # ?preS @ [Completed OpScenes])"
      by (auto simp: stage3_block_ok contract_defs split: option.splits)
    then show ?thesis ..
  next
    case fail3
    then have "segment_ok env t [OpStage3, OpScenes] ap st ?r (?pre3 @ [Failed OpStage3])"
      by (auto simp: stage3_block_fail_stage3 contract_defs split: option.splits)
    then show ?thesis ..
  next
    case failS
    then have "segment_ok env t [OpStage3, OpScenes] ap st ?r
        (?pre3 @ Completed OpStage3 # ?preS @ [Failed OpScenes])"
      by (auto simp: stage3_block_fail_scenes contract_defs split: option.splits)
    then show ?thesis ..
  qed
qed

subsection \<open>Sequences of blocks keep the contract\<close>

lemma started_append: "started (a @ b) = started a @ started b"
  by (induction a rule: started.induct) simp_all

lemma calls_closed_append: "calls_closed a \<Longrightarrow> calls_closed (a @ b) = calls_closed b"
  by (induction a rule: calls_closed.induct) auto

lemma late_starts_append:
  "late_starts seen (a @ b) = late_starts seen a @ late_starts (seen \<or> StopRequested \<in> set a) b"
  by (induction seen a rule: late_starts.induct) simp_all

lemma results_present_keeps: "results_present ops p \<Longrightarrow> keeps p q \<Longrightarrow> results_present ops q"
  by (auto simp: results_present_def keeps_def split: option.splits)

lemma results_present_append:
  "results_present (ops1 @ ops2) p = (results_present ops1 p \<and> results_present ops2 p)"
  by (auto simp: results_present_def)

lemma keeps_stage_results:
  assumes "keeps p q"
  shows "stage1Result p \<noteq> None \<Longrightarrow> stage1Result q \<noteq> None"
    and "stage2Result p \<noteq> None \<Longrightarrow> stage2Result q \<noteq> None"
    and "stage3Result p \<noteq> None \<Longrightarrow> stage3Result q \<noteq> None"
  using assms by (auto simp: keeps_def split: option.splits)

lemma outcomes_match_append:
  "outcomes_match env t a \<Longrightarrow> outcomes_match env t b \<Longrightarrow> outcomes_match env t (a @ b)"
  unfolding outcomes_match_def by (intro conjI; simp; blast)

lemma merged_append:
  assumes "merged env t ev1 q" "keeps q r" "merged env t ev2 r"
  shows "merged env t (ev1 @ ev2) r"
proof -
  have s1: "\<exists>x. analyzeStage1 env t = Inr x \<and> stage1Result r = Some x"
    if "Completed OpStage1 \<in> set ev1"
    using that assms(1,2) by (auto simp: merged_def keeps_def)
  have s2: "\<exists>x x' l s. analyzeStage2 env t l s = Inr x \<and> stage2Result r = Some x' \<and>
      strip_visuals x' = strip_visuals x"
    if "Completed OpStage2 \<in> set ev1"
  proof -
    from that assms(1) obtain x x' l s where x: "analyzeStage2 env t l s = Inr x"
      "stage2Result q = Some x'" "strip_visuals x' = strip_visuals x"
      unfolding merged_def by blast
    from x(2) assms(2) obtain x'' where "stage2Result r = Some x''"
      "strip_visuals x'' = strip_visuals x'"
      by (auto simp: keeps_def split: option.splits)
    with x show ?thesis by auto
  qed
  have s3: "\<exists>x sc. analyzeStage3 env t = Inr x \<and> extractScenes env t = Inr sc \<and>
      stage3Result r = Some x \<and> fullScenes r = Some sc"
    if "Completed OpScenes \<in> set ev1"
    using that assms(1,2) by (auto simp: merged_def keeps_def)
  show ?thesis
    using assms(3) s1 s2 s3 unfolding merged_def by auto
qed

lemma unmerged_append: "unmerged ev1 p q \<Longrightarrow> unmerged ev2 q r \<Longrightarrow> unmerged (ev1 @ ev2) p r"
  by (simp add: unmerged_def)

lemma project_ok_seq:
  "project_ok env t ev1 p q \<Longrightarrow> project_ok env t ev2 q r \<Longrightarrow> project_ok env t (ev1 @ ev2) p r"
  unfolding project_ok_def
  by (intro conjI; (elim conjE)?) (erule (1) keeps_trans, erule (2) merged_append,
      erule (1) unmerged_append)

lemma segment_ok_Inl:
  "segment_ok env t ops ap st (Inl s) ev =
     (trace s = trace st @ ev \<and> scriptToAnalyze s = scriptToAnalyze st \<and>
      visualOptions s = visualOptions st \<and> calls_closed ev \<and> subseq (started ev) ops \<and>
      shouldStop s = (shouldStop st \<or> StopRequested \<in> set ev) \<and>
      (shouldStop st \<longrightarrow> ev = []) \<and>
      set (late_starts False ev) \<subseteq> {OpScenes} \<and>
      (stage1Result ap \<noteq> None \<longrightarrow> OpStage1 \<notin> set (started ev)) \<and>
      (stage2Result ap \<noteq> None \<longrightarrow> OpStage2 \<notin> set (started ev)) \<and>
      (stage3Result ap \<noteq> None \<longrightarrow> OpStage3 \<notin> set (started ev) \<and> OpScenes \<notin> set (started ev)) \<and>
      outcomes_match env t ev \<and>
      (status s = PAUSED \<and> shouldStop s \<and> (\<forall>e \<in> set ev. \<not> is_Failed e) \<or>
       status s = ERROR \<and> ev \<noteq> [] \<and> is_Failed (last ev) \<and>
         (\<forall>e \<in> set (butlast ev). \<not> is_Failed e)) \<and>
      (currentProject st = Some ap \<longrightarrow>
         (\<exists>p'. currentProject s = Some p' \<and> project_ok env t ev ap p')))"
  by (simp add: segment_ok_def out_state_def)

lemma segment_ok_Inr:
  "segment_ok env t ops ap st (Inr (ap', s')) ev =
     (trace s' = trace st @ ev \<and> scriptToAnalyze s' = scriptToAnalyze st \<and>
      visualOptions s' = visualOptions st \<and> calls_closed ev \<and> subseq (started ev) ops \<and>
      shouldStop s' = (shouldStop st \<or> StopRequested \<in> set ev) \<and>
      (shouldStop st \<longrightarrow> ev = []) \<and>
      set (late_starts False ev) \<subseteq> {OpScenes} \<and>
      (stage1Result ap \<noteq> None \<longrightarrow> OpStage1 \<notin> set (started ev)) \<and>
      (stage2Result ap \<noteq> None \<longrightarrow> OpStage2 \<notin> set (started ev)) \<and>
      (stage3Result ap \<noteq> None \<longrightarrow> OpStage3 \<notin> set (started ev) \<and> OpScenes \<notin> set (started ev)) \<and>
      outcomes_match env t ev \<and>
      (\<forall>e \<in> set ev. \<not> is_Failed e) \<and> project_ok env t ev ap ap' \<and>
      results_present ops ap' \<and>
      (currentProject st = Some ap \<longrightarrow> currentProject s' = Some ap'))"
  by (simp add: segment_ok_def out_state_def)

lemma segment_ok_Inl_weaken:
  assumes "segment_ok env t ops1 ap st (Inl s) ev"
  shows "segment_ok env t (ops1 @ ops2) ap st (Inl s) ev"
proof -
  from assms have "subseq (started ev) ops1"
    unfolding segment_ok_Inl by blast
  then have "subseq (started ev) (ops1 @ ops2)"
    by (rule list_emb_prefix)
  with assms show ?thesis
    unfolding segment_ok_Inl by blast
qed

lemma segment_ok_seq:
  assumes f: "segment_ok env t ops1 ap st (Inr (ap', s')) ev1"
    and g: "segment_ok env t ops2 ap' s' r ev2"
  shows "segment_ok env t (ops1 @ ops2) ap st r (ev1 @ ev2)"
proof -
  from f have f1: "trace s' = trace st @ ev1" "calls_closed ev1" "subseq (started ev1) ops1"
    "shouldStop s' = (shouldStop st \<or> StopRequested \<in> set ev1)"
    "shouldStop st \<longrightarrow> ev1 = []"
    "set (late_starts False ev1) \<subseteq> {OpScenes}"
    "stage1Result ap \<noteq> None \<longrightarrow> OpStage1 \<notin> set (started ev1)"
    "stage2Result ap \<noteq> None \<longrightarrow> OpStage2 \<notin> set (started ev1)"
    "stage3Result ap \<noteq> None \<longrightarrow> OpStage3 \<notin> set (started ev1) \<and> OpScenes \<notin> set (started ev1)"
    "\<forall>e \<in> set ev1. \<not> is_Failed e" "project_ok env t ev1 ap ap'" "results_present ops1 ap'"
    "currentProject st = Some ap \<longrightarrow> currentProject s' = Some ap'"
    "outcomes_match env t ev1"
    "scriptToAnalyze s' = scriptToAnalyze st" "visualOptions s' = visualOptions st"
    unfolding segment_ok_Inr by blast+
  have g0: "trace (out_state r) = trace s' @ ev2" "calls_closed ev2" "subseq (started ev2) ops2"
    "shouldStop (out_state r) = (shouldStop s' \<or> StopRequested \<in> set ev2)"
    "shouldStop s' \<longrightarrow> ev2 = []"
    "set (late_starts False ev2) \<subseteq> {OpScenes}"
    "stage1Result ap' \<noteq> None \<longrightarrow> OpStage1 \<notin> set (started ev2)"
    "stage2Result ap' \<noteq> None \<longrightarrow> OpStage2 \<notin> set (started ev2)"
    "stage3Result ap' \<noteq> None \<longrightarrow> OpStage3 \<notin> set (started ev2) \<and> OpScenes \<notin> set (started ev2)"
    "outcomes_match env t ev2"
    "scriptToAnalyze (out_state r) = scriptToAnalyze s'"
    "visualOptions (out_state r) = visualOptions s'"
    using g unfolding segment_ok_def by blast+
  have k: "keeps ap ap'"
    using f1(11) by (simp add: project_ok_def)
  note ks = keeps_stage_results [OF k]
  have late: "late_starts False (ev1 @ ev2) = late_starts False ev1 @ late_starts False ev2"
  proof (cases "StopRequested \<in> set ev1")
    case True
    with f1(4) g0(5) have "ev2 = []" by simp
    then show ?thesis by simp
  next
    case False
    then show ?thesis by (simp add: late_starts_append)
  qed
  have common:
    "trace (out_state r) = trace st @ ev1 @ ev2" "calls_closed (ev1 @ ev2)"
    "subseq (started (ev1 @ ev2)) (ops1 @ ops2)"
    "shouldStop (out_state r) = (shouldStop st \<or> StopRequested \<in> set (ev1 @ ev2))"
    "shouldStop st \<longrightarrow> ev1 @ ev2 = []"
    "set (late_starts False (ev1 @ ev2)) \<subseteq> {OpScenes}"
    "stage1Result ap \<noteq> None \<longrightarrow> OpStage1 \<notin> set (started (ev1 @ ev2))"
    "stage2Result ap \<noteq> None \<longrightarrow> OpStage2 \<notin> set (started (ev1 @ ev2))"
    "stage3Result ap \<noteq> None \<longrightarrow>
       OpStage3 \<notin> set (started (ev1 @ ev2)) \<and> OpScenes \<notin> set (started (ev1 @ ev2))"
    "outcomes_match env t (ev1 @ ev2)"
    "scriptToAnalyze (out_state r) = scriptToAnalyze st"
    "visualOptions (out_state r) = visualOptions st"
  proof -
    show "scriptToAnalyze (out_state r) = scriptToAnalyze st" using f1(15) g0(11) by simp
    show "visualOptions (out_state r) = visualOptions st" using f1(16) g0(12) by simp
    show "trace (out_state r) = trace st @ ev1 @ ev2" using f1(1) g0(1) by simp
    show "calls_closed (ev1 @ ev2)" using f1(2) g0(2) by (simp add: calls_closed_append)
    show "subseq (started (ev1 @ ev2)) (ops1 @ ops2)"
      using f1(3) g0(3) by (simp add: started_append list_emb_append_mono)
    show "shouldStop (out_state r) = (shouldStop st \<or> StopRequested \<in> set (ev1 @ ev2))"
      using f1(4) g0(4) by auto
    show "shouldStop st \<longrightarrow> ev1 @ ev2 = []" using f1(4,5) g0(5) by auto
    show "set (late_starts False (ev1 @ ev2)) \<subseteq> {OpScenes}"
      using f1(6) g0(6) by (simp add: late)
    show "stage1Result ap \<noteq> None \<longrightarrow> OpStage1 \<notin> set (started (ev1 @ ev2))"
      using f1(7) g0(7) ks(1) by (auto simp: started_append)
    show "stage2Result ap \<noteq> None \<longrightarrow> OpStage2 \<notin> set (started (ev1 @ ev2))"
      using f1(8) g0(8) ks(2) by (auto simp: started_append)
    show "stage3Result ap \<noteq> None \<longrightarrow>
       OpStage3 \<notin> set (started (ev1 @ ev2)) \<and> OpScenes \<notin> set (started (ev1 @ ev2))"
      using f1(9) g0(9) ks(3) by (auto simp: started_append)
    show "outcomes_match env t (ev1 @ ev2)"
      using f1(14) g0(10) by (rule outcomes_match_append)
  qed
  show ?thesis
  proof (cases r)
    case (Inl s)
    from g have g1:
      "status s = PAUSED \<and> shouldStop s \<and> (\<forall>e \<in> set ev2. \<not> is_Failed e) \<or>
       status s = ERROR \<and> ev2 \<noteq> [] \<and> is_Failed (last ev2) \<and>
         (\<forall>e \<in> set (butlast ev2). \<not> is_Failed e)"
      "currentProject s' = Some ap' \<longrightarrow>
         (\<exists>p'. currentProject s = Some p' \<and> project_ok env t ev2 ap' p')"
      unfolding Inl segment_ok_Inl by blast+
    have outcome:
      "status s = PAUSED \<and> shouldStop s \<and> (\<forall>e \<in> set (ev1 @ ev2). \<not> is_Failed e) \<or>
       status s = ERROR \<and> ev1 @ ev2 \<noteq> [] \<and> is_Failed (last (ev1 @ ev2)) \<and>
         (\<forall>e \<in> set (butlast (ev1 @ ev2)). \<not> is_Failed e)"
      using g1(1) f1(10) by (auto simp: butlast_append)
    have proj: "currentProject st = Some ap \<longrightarrow>
        (\<exists>p'. currentProject s = Some p' \<and> project_ok env t (ev1 @ ev2) ap p')"
      using g1(2) f1(13) f1(11) by (auto intro: project_ok_seq)
    show ?thesis
      unfolding Inl segment_ok_Inl using common [unfolded Inl out_state_def] outcome proj
      by simp
  next
    case (Inr w)
    obtain ap'' s'' where w: "w = (ap'', s'')" by (cases w)
    from g have g1: "\<forall>e \<in> set ev2. \<not> is_Failed e" "project_ok env t ev2 ap' ap''"
      "results_present ops2 ap''"
      "currentProject s' = Some ap' \<longrightarrow> currentProject s'' = Some ap''"
      unfolding Inr w segment_ok_Inr by blast+
    have k2: "keeps ap' ap''"
      using g1(2) by (simp add: project_ok_def)
    have "\<forall>e \<in> set (ev1 @ ev2). \<not> is_Failed e" using f1(10) g1(1) by auto
    moreover have "project_ok env t (ev1 @ ev2) ap ap''"
      using f1(11) g1(2) by (rule project_ok_seq)
    moreover have "results_present (ops1 @ ops2) ap''"
      using results_present_keeps [OF f1(12) k2] g1(3) by (simp add: results_present_append)
    moreover have "currentProject st = Some ap \<longrightarrow> currentProject s'' = Some ap''"
      using f1(13) g1(4) by simp
    ultimately show ?thesis
      unfolding Inr w segment_ok_Inr using common [unfolded Inr w out_state_def]
      by simp
  qed
qed

lemma and_then_contract:
  assumes "block_contract env t ops1 f" and "block_contract env t ops2 g"
  shows "block_contract env t (ops1 @ ops2) (and_then f g)"
  unfolding block_contract_def
proof (intro allI)
  fix ap st
  from assms(1) obtain ev1 where f: "segment_ok env t ops1 ap st (f (ap, st)) ev1"
    unfolding block_contract_def by blast
  show "\<exists>ev. segment_ok env t (ops1 @ ops2) ap st (and_then f g (ap, st)) ev"
  proof (cases "f (ap, st)")
    case (Inl s)
    with f have "segment_ok env t (ops1 @ ops2) ap st (and_then f g (ap, st)) ev1"
      by (simp add: and_then_def segment_ok_Inl_weaken)
    then show ?thesis ..
  next
    case (Inr w)
    obtain ap' s' where w: "w = (ap', s')" by (cases w)
    from assms(2) obtain ev2 where g: "segment_ok env t ops2 ap' s' (g (ap', s')) ev2"
      unfolding block_contract_def by blast
    from f Inr w have "segment_ok env t ops1 ap st (Inr (ap', s')) ev1" by simp
    from segment_ok_seq [OF this g]
    have "segment_ok env t (ops1 @ ops2) ap st (and_then f g (ap, st)) (ev1 @ ev2)"
      by (simp add: and_then_def Inr w)
    then show ?thesis ..
  qed
qed

lemma all_blocks_contract:
  "block_contract env t [OpStage1, OpStage2, OpVisuals, OpStage3, OpScenes]
     (all_blocks env options t)"
proof -
  have "block_contract env t ([OpStage1] @ [OpStage2] @ [OpVisuals] @ [OpStage3, OpScenes])
      (all_blocks env options t)"
    unfolding all_blocks_def
    by (intro and_then_contract stage1_contract stage2_contract visuals_contract stage3_contract)
  then show ?thesis by simp
qed

section \<open>A run of the orchestrator\<close>

lemma entry_state_proj [simp]:
  "trace (entry_state options r st) = trace st"
  "shouldStop (entry_state options r st) = (r \<and> shouldStop st)"
  "currentProject (entry_state options r st) = Some (working_project r st)"
  "scriptToAnalyze (entry_state options r st) = scriptToAnalyze st"
  "visualOptions (entry_state options r st) = (if r then visualOptions st else options)"
  by (auto simp: entry_state_def working_project_def Let_def)

lemma finish_proj [simp]:
  "trace (finish r) = trace (out_state r)"
  "shouldStop (finish r) = shouldStop (out_state r)"
  "currentProject (finish r) = currentProject (out_state r)"
  "scriptToAnalyze (finish r) = scriptToAnalyze (out_state r)"
  "visualOptions (finish r) = visualOptions (out_state r)"
  "status (finish r) = (case r of Inl s \<Rightarrow> status s | Inr w \<Rightarrow> COMPLETE)"
  by (simp_all add: finish_def out_state_def split: sum.splits prod.splits)

lemma executeAnalysis_nonblank:
  "trim (scriptToAnalyze st) \<noteq> [] \<Longrightarrow>
   executeAnalysis env options r st =
     finish (all_blocks env options (scriptToAnalyze st)
       (working_project r st, entry_state options r st))"
  by (simp add: executeAnalysis_def run_blocks_def Let_def)

lemma executeAnalysis_blank:
  "trim (scriptToAnalyze st) = [] \<Longrightarrow>
   trace (executeAnalysis env options r st) = trace st \<and>
   currentProject (executeAnalysis env options r st) = currentProject st \<and>
   status (executeAnalysis env options r st) = status st \<and>
   error (executeAnalysis env options r st) = error st"
  by (simp add: executeAnalysis_def Let_def)

lemma new_events_append [simp]: "trace st' = trace st @ ev \<Longrightarrow> new_events st st' = ev"
  by (simp add: new_events_def)

lemma run_facts:
  assumes "trim (scriptToAnalyze st) \<noteq> []"
  obtains (run) ev p' where
    "trace (executeAnalysis env options r st) = trace st @ ev"
    "calls_closed ev"
    "subseq (started ev) [OpStage1, OpStage2, OpVisuals, OpStage3, OpScenes]"
    "shouldStop (executeAnalysis env options r st) = (r \<and> shouldStop st \<or> StopRequested \<in> set ev)"
    "r \<and> shouldStop st \<longrightarrow> ev = []"
    "set (late_starts False ev) \<subseteq> {OpScenes}"
    "stage1Result (working_project r st) \<noteq> None \<longrightarrow> OpStage1 \<notin> set (started ev)"
    "stage2Result (working_project r st) \<noteq> None \<longrightarrow> OpStage2 \<notin> set (started ev)"
    "stage3Result (working_project r st) \<noteq> None \<longrightarrow>
       OpStage3 \<notin> set (started ev) \<and> OpScenes \<notin> set (started ev)"
    "outcomes_match env (scriptToAnalyze st) ev"
    "status (executeAnalysis env options r st) = PAUSED \<and>
       shouldStop (executeAnalysis env options r st) \<and> (\<forall>e \<in> set ev. \<not> is_Failed e) \<or>
     status (executeAnalysis env options r st) = ERROR \<and> ev \<noteq> [] \<and> is_Failed (last ev) \<and>
       (\<forall>e \<in> set (butlast ev). \<not> is_Failed e) \<or>
     status (executeAnalysis env options r st) = COMPLETE \<and> (\<forall>e \<in> set ev. \<not> is_Failed e) \<and>
       stage1Result p' \<noteq> None \<and> stage2Result p' \<noteq> None \<and> stage3Result p' \<noteq> None"
    "currentProject (executeAnalysis env options r st) = Some p'"
    "project_ok env (scriptToAnalyze st) ev (working_project r st) p'"
    "scriptToAnalyze (executeAnalysis env options r st) = scriptToAnalyze st"
    "visualOptions (executeAnalysis env options r st) = (if r then visualOptions st else options)"
proof -
  let ?t = "scriptToAnalyze st"
  let ?ap = "working_project r st"
  let ?st0 = "entry_state options r st"
  let ?ops = "[OpStage1, OpStage2, OpVisuals, OpStage3, OpScenes]"
  let ?res = "all_blocks env options ?t (?ap, ?st0)"
  have run: "executeAnalysis env options r st = finish ?res"
    using assms by (rule executeAnalysis_nonblank)
  obtain ev where seg: "segment_ok env ?t ?ops ?ap ?st0 ?res ev"
    using all_blocks_contract [of env ?t options] unfolding block_contract_def by blast
  show ?thesis
  proof (cases ?res)
    case (Inl s)
    from seg have s: "trace s = trace ?st0 @ ev" "scriptToAnalyze s = scriptToAnalyze ?st0"
      "visualOptions s = visualOptions ?st0" "calls_closed ev" "subseq (started ev) ?ops"
      "shouldStop s = (shouldStop ?st0 \<or> StopRequested \<in> set ev)"
      "shouldStop ?st0 \<longrightarrow> ev = []"
      "set (late_starts False ev) \<subseteq> {OpScenes}"
      "stage1Result ?ap \<noteq> None \<longrightarrow> OpStage1 \<notin> set (started ev)"
      "stage2Result ?ap \<noteq> None \<longrightarrow> OpStage2 \<notin> set (started ev)"
      "stage3Result ?ap \<noteq> None \<longrightarrow> OpStage3 \<notin> set (started ev) \<and> OpScenes \<notin> set (started ev)"
      "outcomes_match env ?t ev"
      "status s = PAUSED \<and> shouldStop s \<and> (\<forall>e \<in> set ev. \<not> is_Failed e) \<or>
       status s = ERROR \<and> ev \<noteq> [] \<and> is_Failed (last ev) \<and>
         (\<forall>e \<in> set (butlast ev). \<not> is_Failed e)"
      "currentProject ?st0 = Some ?ap \<longrightarrow>
         (\<exists>p'. currentProject s = Some p' \<and> project_ok env ?t ev ?ap p')"
      unfolding Inl segment_ok_Inl by blast+
    from s(14) obtain p' where p': "currentProject s = Some p'" "project_ok env ?t ev ?ap p'"
      by auto
    show ?thesis
    proof (rule that [of ev p'])
      show "status (executeAnalysis env options r st) = PAUSED \<and>
         shouldStop (executeAnalysis env options r st) \<and> (\<forall>e \<in> set ev. \<not> is_Failed e) \<or>
       status (executeAnalysis env options r st) = ERROR \<and> ev \<noteq> [] \<and> is_Failed (last ev) \<and>
         (\<forall>e \<in> set (butlast ev). \<not> is_Failed e) \<or>
       status (executeAnalysis env options r st) = COMPLETE \<and> (\<forall>e \<in> set ev. \<not> is_Failed e) \<and>
         stage1Result p' \<noteq> None \<and> stage2Result p' \<noteq> None \<and> stage3Result p' \<noteq> None"
        using s(13) by (auto simp: run Inl out_state_def)
    qed (use s p' in \<open>simp_all add: run Inl out_state_def\<close>)
  next
    case (Inr w)
    obtain ap' s' where w: "w = (ap', s')" by (cases w)
    from seg have s: "trace s' = trace ?st0 @ ev" "scriptToAnalyze s' = scriptToAnalyze ?st0"
      "visualOptions s' = visualOptions ?st0" "calls_closed ev" "subseq (started ev) ?ops"
      "shouldStop s' = (shouldStop ?st0 \<or> StopRequested \<in> set ev)"
      "shouldStop ?st0 \<longrightarrow> ev = []"
      "set (late_starts False ev) \<subseteq> {OpScenes}"
      "stage1Result ?ap \<noteq> None \<longrightarrow> OpStage1 \<notin> set (started ev)"
      "stage2Result ?ap \<noteq> None \<longrightarrow> OpStage2 \<notin> set (started ev)"
      "stage3Result ?ap \<noteq> None \<longrightarrow> OpStage3 \<notin> set (started ev) \<and> OpScenes \<notin> set (started ev)"
      "outcomes_match env ?t ev"
      "\<forall>e \<in> set ev. \<not> is_Failed e" "project_ok env ?t ev ?ap ap'"
      "results_present ?ops ap'"
      "currentProject ?st0 = Some ?ap \<longrightarrow> currentProject s' = Some ap'"
      unfolding Inr w segment_ok_Inr by blast+
    show ?thesis
    proof (rule that [of ev ap'])
      show "status (executeAnalysis env options r st) = PAUSED \<and>
         shouldStop (executeAnalysis env options r st) \<and> (\<forall>e \<in> set ev. \<not> is_Failed e) \<or>
       status (executeAnalysis env options r st) = ERROR \<and> ev \<noteq> [] \<and> is_Failed (last ev) \<and>
         (\<forall>e \<in> set (butlast ev). \<not> is_Failed e) \<or>
       status (executeAnalysis env options r st) = COMPLETE \<and> (\<forall>e \<in> set ev. \<not> is_Failed e) \<and>
         stage1Result ap' \<noteq> None \<and> stage2Result ap' \<noteq> None \<and> stage3Result ap' \<noteq> None"
        using s(13,15) by (auto simp: run Inr w results_present_def)
    qed (use s in \<open>simp_all add: run Inr w out_state_def\<close>)
  qed
qed

section \<open>The first pending step of a run\<close>

lemma started_set: "op \<in> set (started ev) \<longleftrightarrow> Started op \<in> set ev"
  by (induction ev rule: started.induct) auto

lemma and_then_Inr: "f w = Inr w' \<Longrightarrow> and_then f g w = g w'"
  by (simp add: and_then_def)

lemma and_then_Inl: "f w = Inl s \<Longrightarrow> and_then f g w = Inl s"
  by (simp add: and_then_def)

lemma contract_trace:
  assumes "block_contract env t ops g"
  shows "\<exists>ev. trace (out_state (g (ap, st))) = trace st @ ev"
  using assms unfolding block_contract_def segment_ok_def by blast

lemma first_events:
  assumes "block_contract env t ops g"
    and "trace (out_state (f (ap, st))) = trace st @ pre"
  shows "\<exists>rest. trace (out_state (and_then f g (ap, st))) = trace st @ pre @ rest"
proof (cases "f (ap, st)")
  case (Inl s)
  with assms(2) have "trace (out_state (and_then f g (ap, st))) = trace st @ pre @ []"
    by (simp add: and_then_def)
  then show ?thesis ..
next
  case (Inr w)
  obtain ap' s' where w: "w = (ap', s')" by (cases w)
  from contract_trace [OF assms(1)] obtain ev where
    "trace (out_state (g (ap', s'))) = trace s' @ ev" by blast
  with assms(2) Inr w have "trace (out_state (and_then f g (ap, st))) = trace st @ pre @ ev"
    by (simp add: and_then_def out_state_def)
  then show ?thesis ..
qed

lemma rest3_contract:
  "block_contract env t [OpVisuals, OpStage3, OpScenes]
     (and_then (visuals_block env options) (stage3_block env t))"
proof -
  have "block_contract env t ([OpVisuals] @ [OpStage3, OpScenes])
      (and_then (visuals_block env options) (stage3_block env t))"
    by (intro and_then_contract visuals_contract stage3_contract)
  then show ?thesis by simp
qed

lemma rest2_contract:
  "block_contract env t [OpStage2, OpVisuals, OpStage3, OpScenes]
     (and_then (stage2_block env t)
        (and_then (visuals_block env options) (stage3_block env t)))"
proof -
  have "block_contract env t ([OpStage2] @ [OpVisuals, OpStage3, OpScenes])
      (and_then (stage2_block env t)
         (and_then (visuals_block env options) (stage3_block env t)))"
    by (intro and_then_contract stage2_contract rest3_contract)
  then show ?thesis by simp
qed

lemma stage1_block_starts:
  assumes "stage1Result ap = None" "\<not> shouldStop st"
  shows "\<exists>x. trace (out_state (stage1_block env t (ap, st))) = trace st @ [Started OpStage1] @ x"
proof (cases "analyzeStage1 env t")
  case (Inl e)
  from stage1_block_fail [OF assms Inl] show ?thesis
    by (simp add: out_state_def)
next
  case (Inr r1)
  from stage1_block_ok [OF assms Inr] show ?thesis
    by (simp add: out_state_def)
qed

lemma stage2_block_starts:
  assumes "stage2Result ap = None" "\<not> shouldStop st"
  shows "\<exists>x. trace (out_state (stage2_block env t (ap, st))) = trace st @ [Started OpStage2] @ x"
proof (cases "analyzeStage2 env t (fst (stage2_context ap)) (snd (stage2_context ap))")
  case (Inl e)
  from stage2_block_fail [OF assms Inl] show ?thesis
    by (simp add: out_state_def)
next
  case (Inr r2)
  from stage2_block_ok [OF assms Inr] show ?thesis
    by (simp add: out_state_def)
qed

lemma stage3_block_starts:
  assumes "stage3Result ap = None" "\<not> shouldStop st"
  shows "\<exists>x. trace (out_state (stage3_block env t (ap, st))) = trace st @ [Started OpStage3] @ x"
proof (cases "analyzeStage3 env t")
  case (Inl e)
  from stage3_block_fail_stage3 [OF assms Inl] show ?thesis
    by (simp add: out_state_def)
next
  case r3: (Inr r3)
  show ?thesis
  proof (cases "extractScenes env t")
    case (Inl e)
    from stage3_block_fail_scenes [OF assms r3 Inl] show ?thesis
      by (simp add: out_state_def)
  next
    case (Inr sc)
    from stage3_block_ok [OF assms r3 Inr] show ?thesis
      by (simp add: out_state_def)
  qed
qed

lemma pending_stage1:
  assumes "stage1Result ap = None" "\<not> shouldStop st"
  shows "\<exists>rest. trace (out_state (all_blocks env options t (ap, st))) =
      trace st @ Started OpStage1 # rest"
proof -
  from stage1_block_starts [OF assms] obtain x where
    x: "trace (out_state (stage1_block env t (ap, st))) = trace st @ [Started OpStage1] @ x"
    by blast
  have "\<exists>rest. trace (out_state (and_then (stage1_block env t)
      (and_then (stage2_block env t)
         (and_then (visuals_block env options) (stage3_block env t))) (ap, st))) =
      trace st @ ([Started OpStage1] @ x) @ rest"
    by (rule first_events) (rule rest2_contract, rule x)
  then show ?thesis
    unfolding all_blocks_def by auto
qed

lemma pending_stage2:
  assumes "stage1Result ap \<noteq> None" "stage2Result ap = None" "\<not> shouldStop st"
  shows "\<exists>rest. trace (out_state (all_blocks env options t (ap, st))) =
      trace st @ Started OpStage2 # rest"
proof -
  from stage2_block_starts [OF assms(2,3)] obtain x where
    x: "trace (out_state (stage2_block env t (ap, st))) = trace st @ [Started OpStage2] @ x"
    by blast
  have "all_blocks env options t (ap, st) =
      and_then (stage2_block env t)
        (and_then (visuals_block env options) (stage3_block env t)) (ap, st)"
    unfolding all_blocks_def by (rule and_then_Inr) (rule stage1_block_skip [OF assms(1)])
  moreover have "\<exists>rest. trace (out_state (and_then (stage2_block env t)
      (and_then (visuals_block env options) (stage3_block env t)) (ap, st))) =
      trace st @ ([Started OpStage2] @ x) @ rest"
    by (rule first_events) (rule rest3_contract, rule x)
  ultimately show ?thesis
    by auto
qed

lemma pending_stage3_no_visuals:
  assumes "stage1Result ap \<noteq> None" "stage2Result ap \<noteq> None" "\<not> needVisuals options"
    "stage3Result ap = None" "\<not> shouldStop st"
  shows "\<exists>rest. trace (out_state (all_blocks env options t (ap, st))) =
      trace st @ Started OpStage3 # rest"
proof -
  have "all_blocks env options t (ap, st) = stage3_block env t (ap, st)"
    unfolding all_blocks_def
    by (simp add: and_then_Inr stage1_block_skip [OF assms(1)] stage2_block_skip [OF assms(2)]
        visuals_block_skip [OF assms(3)])
  with stage3_block_starts [OF assms(4,5)] show ?thesis
    by auto
qed

lemma pending_visuals:
  assumes "stage1Result ap \<noteq> None" "stage2Result ap = Some r2" "needVisuals (Some opts)"
    "\<not> shouldStop st"
  shows "all_blocks env (Some opts) t (ap, st) =
      stage3_block env t
        (ap\<lparr>stage2Result := Some (mergeVisuals r2 (fst (generateAllVisuals env r2 opts)))\<rparr>,
         (end_call OpVisuals True
            (begin_call env OpVisuals (st\<lparr>status := ANALYZING_STAGE_2_VISUALS\<rparr>)))
           \<lparr>currentProject :=
              Some (ap\<lparr>stage2Result :=
                Some (mergeVisuals r2 (fst (generateAllVisuals env r2 opts)))\<rparr>)\<rparr>)"
proof -
  have "stage2Result ap \<noteq> None" using assms(2) by simp
  then show ?thesis
    unfolding all_blocks_def
    by (simp add: and_then_Inr stage1_block_skip [OF assms(1)] stage2_block_skip
        visuals_block_ok [OF assms(3,4,2)])
qed

lemma pending_stage3_after_visuals:
  assumes "stage1Result ap \<noteq> None" "stage2Result ap = Some r2" "needVisuals (Some opts)"
    "\<not> shouldStop st" "\<not> stop_during env OpVisuals" "stage3Result ap = None"
  shows "\<exists>rest. trace (out_state (all_blocks env (Some opts) t (ap, st))) =
      trace st @ Started OpVisuals # Completed OpVisuals # Started OpStage3 # rest"
proof -
  let ?ap' = "ap\<lparr>stage2Result := Some (mergeVisuals r2 (fst (generateAllVisuals env r2 opts)))\<rparr>"
  let ?st' = "(end_call OpVisuals True
      (begin_call env OpVisuals (st\<lparr>status := ANALYZING_STAGE_2_VISUALS\<rparr>)))
        \<lparr>currentProject := Some ?ap'\<rparr>"
  have "stage3Result ?ap' = None" "\<not> shouldStop ?st'"
    using assms(4,5,6) by simp_all
  from stage3_block_starts [OF this, of env t] obtain x where
    "trace (out_state (stage3_block env t (?ap', ?st'))) = trace ?st' @ [Started OpStage3] @ x"
    by blast
  with assms(5) show ?thesis
    unfolding pending_visuals [OF assms(1-4)] by simp
qed

lemma started_visuals_first:
  assumes "stage1Result ap \<noteq> None" "stage2Result ap = Some r2" "needVisuals (Some opts)"
    "\<not> shouldStop st"
  shows "\<exists>rest. trace (out_state (all_blocks env (Some opts) t (ap, st))) =
      trace st @ Started OpVisuals # rest"
proof -
  let ?ap' = "ap\<lparr>stage2Result := Some (mergeVisuals r2 (fst (generateAllVisuals env r2 opts)))\<rparr>"
  let ?st' = "(end_call OpVisuals True
      (begin_call env OpVisuals (st\<lparr>status := ANALYZING_STAGE_2_VISUALS\<rparr>)))
        \<lparr>currentProject := Some ?ap'\<rparr>"
  from contract_trace [OF stage3_contract, of env t ?ap' ?st'] obtain ev where
    "trace (out_state (stage3_block env t (?ap', ?st'))) = trace ?st' @ ev"
    by blast
  then show ?thesis
    unfolding pending_visuals [OF assms] by simp
qed

section \<open>Resume\<close>

lemma subseq_distinct: "subseq xs ys \<Longrightarrow> distinct ys \<Longrightarrow> distinct xs"
  by (induction rule: list_emb.induct) (auto elim: list_emb_set)

lemma handleResumeAnalysis_unfold:
  "currentProject st = Some p \<Longrightarrow>
   handleResumeAnalysis env st =
     executeAnalysis env (visualOptions st) True (st\<lparr>shouldStop := False\<rparr>)"
  by (simp add: handleResumeAnalysis_def)

lemma working_project_resume:
  "currentProject st = Some p \<Longrightarrow> working_project True (st\<lparr>shouldStop := False\<rparr>) = p"
  by (simp add: working_project_def)

lemma entry_state_resume [simp]:
  "shouldStop (entry_state options True (st\<lparr>shouldStop := False\<rparr>)) = False"
  "trace (entry_state options True (st\<lparr>shouldStop := False\<rparr>)) = trace st"
  by simp_all

lemma sample_script_nonblank: "trim sample_script \<noteq> []"
  by (simp add: trim_def sample_script_def isWhiteSpace_def)

lemma paused_project_stages:
  "stage1Result paused_project = Some sample_stage1"
  "stage2Result paused_project = Some (sample_stage2\<lparr>movie_poster_base64 := Some ''IMAGE''\<rparr>)"
  "stage3Result paused_project = None"
  by (simp_all add: paused_project_def createNewProject_def)

lemma paused_state_proj:
  "currentProject (paused_state options) = Some paused_project"
  "scriptToAnalyze (paused_state options) = sample_script"
  "visualOptions (paused_state options) = options"
  "trace (paused_state options) = []"
  by (simp_all add: paused_state_def)

section \<open>The sample backends at work\<close>

lemma with_retry_Inr: "operation 0 = Inr v \<Longrightarrow> with_retry operation = Inr v"
  by (simp add: with_retry_def retryWithBackoff_default_def retryWithBackoff_Inr)

lemma with_retry_fatal:
  "operation 0 = Inl e \<Longrightarrow> \<not> isRateLimit e \<Longrightarrow> \<not> isServerOverload e \<Longrightarrow>
   with_retry operation = Inl e"
  by (simp add: with_retry_def retryWithBackoff_default_def retryWithBackoff_give_up)

lemma env_ok_calls [simp]:
  "analyzeStage1 env_ok t = Inr sample_stage1"
  "analyzeStage2 env_ok t l s = Inr sample_stage2"
  "analyzeStage3 env_ok t = Inr sample_stage3"
  "extractScenes env_ok t = Inr sample_scenes"
  "stop_during env_ok op = False"
  by (simp_all add: analyzeStage1_def analyzeStage2_def analyzeStage3_def extractScenes_def
      with_retry_Inr env_ok_def)

lemma env_stop_at_calls [simp]:
  "analyzeStage1 (env_stop_at op) t = Inr sample_stage1"
  "analyzeStage2 (env_stop_at op) t l s = Inr sample_stage2"
  "analyzeStage3 (env_stop_at op) t = Inr sample_stage3"
  "extractScenes (env_stop_at op) t = Inr sample_scenes"
  "stop_during (env_stop_at op) op' = (op' = op)"
  by (simp_all add: analyzeStage1_def analyzeStage2_def analyzeStage3_def extractScenes_def
      with_retry_Inr env_stop_at_def env_ok_def)

lemma env_stage3_fails_calls [simp]:
  "analyzeStage1 env_stage3_fails t = Inr sample_stage1"
  "analyzeStage2 env_stage3_fails t l s = Inr sample_stage2"
  "analyzeStage3 env_stage3_fails t = Inl bad_request_error"
  "extractScenes env_stage3_fails t = Inr sample_scenes"
  "stop_during env_stage3_fails op = False"
  by (simp_all add: analyzeStage1_def analyzeStage2_def analyzeStage3_def extractScenes_def
      with_retry_Inr with_retry_fatal bad_request_error_not_transient env_stage3_fails_def
      env_ok_def)

lemma env_scenes_fail_calls [simp]:
  "analyzeStage1 env_scenes_fail t = Inr sample_stage1"
  "analyzeStage2 env_scenes_fail t l s = Inr sample_stage2"
  "analyzeStage3 env_scenes_fail t = Inr sample_stage3"
  "extractScenes env_scenes_fail t = Inl bad_request_error"
  "stop_during env_scenes_fail op = False"
  by (simp_all add: analyzeStage1_def analyzeStage2_def analyzeStage3_def extractScenes_def
      with_retry_Inr with_retry_fatal bad_request_error_not_transient env_scenes_fail_def
      env_ok_def)

lemma submitted_proj:
  "handleAnalysis sample_script initial_state = submitted_state"
  by (simp add: handleAnalysis_def sample_script_nonblank submitted_state_def)

lemma submitted_state_proj [simp]:
  "scriptToAnalyze submitted_state = sample_script"
  "isVisualsModalOpen submitted_state"
  "trace submitted_state = []"
  "currentProject submitted_state = Some createNewProject"
  by (simp_all add: submitted_state_def initial_state_def)

lemma submitted_nonblank: "trim (scriptToAnalyze submitted_state) \<noteq> []"
  by (simp add: sample_script_nonblank)

lemma start_sample:
  "start env sample_script options initial_state =
     executeAnalysis env options False submitted_state"
  by (simp add: start_def visualsChoice_def submitted_proj)

lemma fresh_run:
  "executeAnalysis env options False submitted_state =
     finish (all_blocks env options sample_script
       (createNewProject\<lparr>script := sample_script\<rparr>,
        entry_state options False submitted_state))"
  by (simp add: executeAnalysis_nonblank sample_script_nonblank working_project_def)

lemma fresh_entry [simp]:
  "shouldStop (entry_state options False st) = False"
  by simp

lemma fresh_project_stages [simp]:
  "stage1Result createNewProject = None"
  "stage2Result createNewProject = None"
  "stage3Result createNewProject = None"
  "fullScenes createNewProject = None"
  by (simp_all add: createNewProject_def)

lemmas run_eval =
  all_blocks_def and_then_def stage1_block_ok stage1_block_fail stage2_block_ok
  stage2_block_fail stage2_block_skip stage1_block_skip visuals_block_skip visuals_block_ok
  stage3_block_ok stage3_block_fail_stage3 stage3_block_fail_scenes stage3_block_paused
  needVisuals_def out_state_def

text \<open>A fresh run with the click on Stop during stage 1: the run pauses before stage 2.\<close>

lemma stop_during_stage1_run:
  "trace (executeAnalysis (env_stop_at OpStage1) None False submitted_state) =
     [Started OpStage1, StopRequested, Completed OpStage1]"
  "status (executeAnalysis (env_stop_at OpStage1) None False submitted_state) = PAUSED"
  "shouldStop (executeAnalysis (env_stop_at OpStage1) None False submitted_state)"
  "currentProject (executeAnalysis (env_stop_at OpStage1) None False submitted_state) =
     Some (createNewProject\<lparr>script := sample_script, stage1Result := Some sample_stage1\<rparr>)"
  unfolding fresh_run by (simp_all add: run_eval stage2_block_paused)

text \<open>A fresh run whose scene extraction fails.\<close>

lemma scenes_fail_run:
  "trace (executeAnalysis env_scenes_fail None False submitted_state) =
     [Started OpStage1, Completed OpStage1, Started OpStage2, Completed OpStage2,
      Started OpStage3, Completed OpStage3, Started OpScenes, Failed OpScenes]"
  "status (executeAnalysis env_scenes_fail None False submitted_state) = ERROR"
  "currentProject (executeAnalysis env_scenes_fail None False submitted_state) =
     Some (createNewProject\<lparr>script := sample_script, stage1Result := Some sample_stage1,
       stage2Result := Some sample_stage2\<rparr>)"
  unfolding fresh_run by (simp_all add: run_eval)

section \<open>The stage-3 pair\<close>

lemma and_then_assoc: "and_then f (and_then g h) = and_then (and_then f g) h"
  by (rule ext) (simp add: and_then_def split: sum.splits)

lemma all_blocks_split:
  "all_blocks env options t =
     and_then (and_then (stage1_block env t)
         (and_then (stage2_block env t) (visuals_block env options)))
       (stage3_block env t)"
  unfolding all_blocks_def by (simp add: and_then_assoc)

lemma first3_contract:
  "block_contract env t [OpStage1, OpStage2, OpVisuals]
     (and_then (stage1_block env t) (and_then (stage2_block env t) (visuals_block env options)))"
proof -
  have "block_contract env t ([OpStage1] @ [OpStage2] @ [OpVisuals])
      (and_then (stage1_block env t) (and_then (stage2_block env t) (visuals_block env options)))"
    by (intro and_then_contract stage1_contract stage2_contract visuals_contract)
  then show ?thesis by simp
qed

text \<open>Stage 3 is started only with the results of stages 1 and 2 in the project.\<close>

lemma run_reaches_stage3:
  assumes tr: "trace (out_state (all_blocks env options t (ap, st))) = trace st @ ev"
    and s3: "Started OpStage3 \<in> set ev"
    and cp: "currentProject st = Some ap"
  shows "\<exists>p'. currentProject (out_state (all_blocks env options t (ap, st))) = Some p' \<and>
      stage1Result p' \<noteq> None \<and> stage2Result p' \<noteq> None"
proof -
  let ?pre = "and_then (stage1_block env t)
      (and_then (stage2_block env t) (visuals_block env options))"
  from first3_contract [of env t options] obtain ev1 where
    seg1: "segment_ok env t [OpStage1, OpStage2, OpVisuals] ap st (?pre (ap, st)) ev1"
    unfolding block_contract_def by blast
  show ?thesis
  proof (cases "?pre (ap, st)")
    case (Inl s)
    then have "all_blocks env options t (ap, st) = Inl s"
      unfolding all_blocks_split by (rule and_then_Inl)
    with tr have "trace s = trace st @ ev"
      by (simp add: out_state_def)
    moreover from seg1 have "trace s = trace st @ ev1"
      and sub: "subseq (started ev1) [OpStage1, OpStage2, OpVisuals]"
      unfolding Inl segment_ok_Inl by blast+
    ultimately have "ev = ev1" by simp
    with s3 have mem: "OpStage3 \<in> set (started ev1)"
      by (simp add: started_set)
    from sub mem obtain y where "y \<in> set [OpStage1, OpStage2, OpVisuals]" "OpStage3 = y"
      by (rule list_emb_set)
    then show ?thesis by auto
  next
    case (Inr w)
    obtain ap3 st3 where w: "w = (ap3, st3)" by (cases w)
    have run: "all_blocks env options t (ap, st) = stage3_block env t (ap3, st3)"
      unfolding all_blocks_split using Inr w by (simp add: and_then_Inr)
    from seg1 have rp: "results_present [OpStage1, OpStage2, OpVisuals] ap3"
      and cp3: "currentProject st = Some ap \<longrightarrow> currentProject st3 = Some ap3"
      unfolding Inr w segment_ok_Inr by blast+
    from rp have r12: "stage1Result ap3 \<noteq> None" "stage2Result ap3 \<noteq> None"
      by (simp_all add: results_present_def)
    from cp cp3 have cp3': "currentProject st3 = Some ap3" by simp
    from stage3_contract [of env t] obtain ev2 where
      seg2: "segment_ok env t [OpStage3, OpScenes] ap3 st3 (stage3_block env t (ap3, st3)) ev2"
      unfolding block_contract_def by blast
    have "\<exists>p'. currentProject (out_state (stage3_block env t (ap3, st3))) = Some p' \<and>
        keeps ap3 p'"
    proof (cases "stage3_block env t (ap3, st3)")
      case (Inl s)
      from seg2 have "currentProject st3 = Some ap3 \<longrightarrow>
          (\<exists>p'. currentProject s = Some p' \<and> project_ok env t ev2 ap3 p')"
        unfolding Inl segment_ok_Inl by blast
      with cp3' show ?thesis
        by (auto simp: Inl out_state_def project_ok_def)
    next
      case (Inr w')
      obtain ap' s' where w': "w' = (ap', s')" by (cases w')
      from seg2 have "project_ok env t ev2 ap3 ap'"
        "currentProject st3 = Some ap3 \<longrightarrow> currentProject s' = Some ap'"
        unfolding Inr w' segment_ok_Inr by blast+
      with cp3' show ?thesis
        by (auto simp: Inr w' out_state_def project_ok_def)
    qed
    then obtain p' where
      "currentProject (out_state (stage3_block env t (ap3, st3))) = Some p'" "keeps ap3 p'"
      by blast
    with r12 show ?thesis
      unfolding run using keeps_stage_results(1,2) [of ap3 p'] by blast
  qed
qed

text \<open>Resume on a project with stages 1 and 2 done and stage 3 pending starts stage 3.\<close>

lemma resume_starts_stage3:
  assumes cp: "currentProject s = Some p" and nb: "trim (scriptToAnalyze s) \<noteq> []"
    and r1: "stage1Result p \<noteq> None" and r2: "stage2Result p \<noteq> None"
    and r3: "stage3Result p = None"
    and nostop: "needVisuals (visualOptions s) \<longrightarrow> \<not> stop_during env OpVisuals"
  shows "Started OpStage3 \<in> set (new_events s (handleResumeAnalysis env s))"
proof -
  let ?s0 = "s\<lparr>shouldStop := False\<rparr>"
  let ?opts = "visualOptions s"
  let ?t = "scriptToAnalyze s"
  let ?st0 = "entry_state ?opts True ?s0"
  have nb0: "trim (scriptToAnalyze ?s0) \<noteq> []"
    using nb by simp
  have run: "trace (handleResumeAnalysis env s) =
      trace (out_state (all_blocks env ?opts ?t (p, ?st0)))"
    using executeAnalysis_nonblank [OF nb0, of env ?opts True]
      handleResumeAnalysis_unfold [OF cp, of env] working_project_resume [OF cp]
    by simp
  have "\<exists>pre rest. trace (out_state (all_blocks env ?opts ?t (p, ?st0))) =
      trace ?st0 @ pre @ Started OpStage3 # rest"
  proof (cases "needVisuals ?opts")
    case False
    have "\<exists>rest. trace (out_state (all_blocks env ?opts ?t (p, ?st0))) =
        trace ?st0 @ Started OpStage3 # rest"
      using r1 r2 False r3 by (rule pending_stage3_no_visuals) simp
    then obtain rest where "trace (out_state (all_blocks env ?opts ?t (p, ?st0))) =
        trace ?st0 @ [] @ Started OpStage3 # rest"
      by auto
    then show ?thesis by blast
  next
    case True
    then obtain opts where opts: "?opts = Some opts"
      by (cases ?opts) (auto simp: needVisuals_def)
    from r2 obtain res2 where res2: "stage2Result p = Some res2" by auto
    have nv: "needVisuals (Some opts)" using True opts by simp
    have ns: "\<not> stop_during env OpVisuals" using True nostop by simp
    have "\<exists>rest. trace (out_state (all_blocks env (Some opts) ?t (p, ?st0))) =
        trace ?st0 @ Started OpVisuals # Completed OpVisuals # Started OpStage3 # rest"
      using r1 res2 nv _ ns r3 by (rule pending_stage3_after_visuals) simp
    then obtain rest where "trace (out_state (all_blocks env ?opts ?t (p, ?st0))) =
        trace ?st0 @ [Started OpVisuals, Completed OpVisuals] @ Started OpStage3 # rest"
      unfolding opts by auto
    then show ?thesis by blast
  qed
  then obtain pre rest where
    "trace (handleResumeAnalysis env s) = trace s @ pre @ Started OpStage3 # rest"
    unfolding run by auto
  then have "new_events s (handleResumeAnalysis env s) = pre @ Started OpStage3 # rest"
    by (rule new_events_append)
  then show ?thesis by simp
qed

text \<open>A fresh run whose production breakdown fails.\<close>

lemma stage3_fail_run:
  "trace (executeAnalysis env_stage3_fails None False submitted_state) =
     [Started OpStage1, Completed OpStage1, Started OpStage2, Completed OpStage2,
      Started OpStage3, Failed OpStage3]"
  "status (executeAnalysis env_stage3_fails None False submitted_state) = ERROR"
  "visualOptions (executeAnalysis env_stage3_fails None False submitted_state) = None"
  "currentProject (executeAnalysis env_stage3_fails None False submitted_state) =
     Some (createNewProject\<lparr>script := sample_script, stage1Result := Some sample_stage1,
       stage2Result := Some sample_stage2\<rparr>)"
  unfolding fresh_run by (simp_all add: run_eval)



section \<open>Validation of the source text\<close>

lemma start_nonblank:
  "trim text \<noteq> [] \<Longrightarrow>
   start env text options st =
     executeAnalysis env options False (st\<lparr>scriptToAnalyze := text, isVisualsModalOpen := True\<rparr>)"
  by (simp add: start_def visualsChoice_def handleAnalysis_def)

lemma start_first_event:
  assumes "trim text \<noteq> []"
  shows "\<exists>rest. trace (start env text options st) = trace st @ Started OpStage1 # rest"
proof -
  let ?s = "st\<lparr>scriptToAnalyze := text, isVisualsModalOpen := True\<rparr>"
  have nb: "trim (scriptToAnalyze ?s) \<noteq> []"
    using assms by simp
  have wp: "working_project False ?s = createNewProject\<lparr>script := text\<rparr>"
    by (simp add: working_project_def)
  have "\<exists>rest. trace (out_state (all_blocks env options text
      (createNewProject\<lparr>script := text\<rparr>, entry_state options False ?s))) =
      trace (entry_state options False ?s) @ Started OpStage1 # rest"
    by (rule pending_stage1) simp_all
  then show ?thesis
    unfolding start_nonblank [OF assms] executeAnalysis_nonblank [OF nb] wp by simp
qed

text \<open>
  C9. Submitting text that is empty or white space only sets the error message and changes
  nothing else: the text is not stored and the visuals dialog is not opened, so that a start
  ends there, with the trace, the project and the status as they were. The orchestrator, if
  it is entered with blank stored text, returns before its first block, leaving the trace,
  the project, the status and the error message as they were. Submitting any other text
  sets no error message, and the first thing a start then does is to start the stage-1
  operation.
\<close>

theorem blank_text_is_rejected:
  "(trim blank = [] \<longrightarrow>
      handleAnalysis blank st = st\<lparr>error := Some ''Script content cannot be empty.''\<rparr> \<and>
      (\<not> isVisualsModalOpen st \<longrightarrow>
         start env blank options st = st\<lparr>error := Some ''Script content cannot be empty.''\<rparr>)) \<and>
   (trim (scriptToAnalyze st) = [] \<longrightarrow>
      trace (executeAnalysis env options r st) = trace st \<and>
      currentProject (executeAnalysis env options r st) = currentProject st \<and>
      status (executeAnalysis env options r st) = status st \<and>
      error (executeAnalysis env options r st) = error st) \<and>
   (trim scriptText \<noteq> [] \<longrightarrow>
      error (handleAnalysis scriptText st) = error st \<and>
      (\<exists>rest. trace (start env scriptText options st) = trace st @ Started OpStage1 # rest))"
proof (intro conjI impI)
  assume "trim blank = []"
  then show "handleAnalysis blank st = st\<lparr>error := Some ''Script content cannot be empty.''\<rparr>"
    by (simp add: handleAnalysis_def)
next
  assume "trim blank = []" "\<not> isVisualsModalOpen st"
  then show "start env blank options st = st\<lparr>error := Some ''Script content cannot be empty.''\<rparr>"
    by (simp add: start_def visualsChoice_def handleAnalysis_def)
next
  assume b: "trim (scriptToAnalyze st) = []"
  from executeAnalysis_blank [OF b, of env options r]
  show "trace (executeAnalysis env options r st) = trace st"
    "currentProject (executeAnalysis env options r st) = currentProject st"
    "status (executeAnalysis env options r st) = status st"
    "error (executeAnalysis env options r st) = error st"
    by blast+
next
  assume "trim scriptText \<noteq> []"
  then show "error (handleAnalysis scriptText st) = error st"
    by (simp add: handleAnalysis_def)
next
  assume "trim scriptText \<noteq> []"
  then show "\<exists>rest. trace (start env scriptText options st) = trace st @ Started OpStage1 # rest"
    by (rule start_first_event)
qed

theorem blank_text_is_rejected_witness:
  "trim ''  '' = [] \<and> \<not> isVisualsModalOpen initial_state \<and>
   trim (scriptToAnalyze initial_state) = [] \<and> trim sample_script \<noteq> [] \<and>
   start env_ok ''  '' None initial_state =
     initial_state\<lparr>error := Some ''Script content cannot be empty.''\<rparr> \<and>
   trace (executeAnalysis env_ok None False initial_state) = [] \<and>
   hd (trace (start env_ok sample_script None initial_state)) = Started OpStage1"
proof -
  have h: "trim ''  '' = []" "\<not> isVisualsModalOpen initial_state"
    "trim (scriptToAnalyze initial_state) = []" "trace initial_state = []"
    by (simp_all add: trim_def isWhiteSpace_def initial_state_def)
  note t = blank_text_is_rejected [where blank = "''  ''" and st = initial_state
      and env = env_ok and options = None and r = False and scriptText = sample_script]
  from t h have a: "start env_ok ''  '' None initial_state =
      initial_state\<lparr>error := Some ''Script content cannot be empty.''\<rparr>"
    by blast
  from t h have b: "trace (executeAnalysis env_ok None False initial_state) = []"
    by simp
  from t sample_script_nonblank obtain rest where
    "trace (start env_ok sample_script None initial_state) =
       trace initial_state @ Started OpStage1 # rest"
    by blast
  then have c: "hd (trace (start env_ok sample_script None initial_state)) = Started OpStage1"
    using h(4) by simp
  show ?thesis
    using h(1-3) sample_script_nonblank a b c by blast
qed

section \<open>The visuals step on resume\<close>

lemma paused_resume:
  "handleResumeAnalysis env (paused_state options) =
     finish (all_blocks env options sample_script
       (paused_project, entry_state options True ((paused_state options)\<lparr>shouldStop := False\<rparr>)))"
proof -
  have cp: "currentProject (paused_state options) = Some paused_project"
    by (rule paused_state_proj)
  have nb: "trim (scriptToAnalyze ((paused_state options)\<lparr>shouldStop := False\<rparr>)) \<noteq> []"
    by (simp add: paused_state_proj sample_script_nonblank)
  show ?thesis
    unfolding handleResumeAnalysis_unfold [OF cp] executeAnalysis_nonblank [OF nb]
      working_project_resume [OF cp]
    by (simp add: paused_state_proj)
qed

text \<open>
  C2. A project paused after stage 2 and its visuals, with only the poster requested and
  the poster in place: \<open>hasSomeVisuals\<close> holds, and resume still starts the visuals step
  again, before stage 3.
\<close>

theorem visuals_rerun_on_resume:
  "visualOptions (paused_state (Some poster_only)) = Some poster_only \<and>
   stage2Result paused_project = Some (sample_stage2\<lparr>movie_poster_base64 := Some ''IMAGE''\<rparr>) \<and>
   hasSomeVisuals paused_project \<and>
   started (new_events (paused_state (Some poster_only))
     (handleResumeAnalysis env_ok (paused_state (Some poster_only)))) =
     [OpVisuals, OpStage3, OpScenes]"
proof -
  have "trace (handleResumeAnalysis env_ok (paused_state (Some poster_only))) =
      [Started OpVisuals, Completed OpVisuals, Started OpStage3, Completed OpStage3,
       Started OpScenes, Completed OpScenes]"
    unfolding paused_resume
    by (simp add: run_eval paused_project_stages paused_state_proj poster_only_def)
  then have "new_events (paused_state (Some poster_only))
      (handleResumeAnalysis env_ok (paused_state (Some poster_only))) =
      [Started OpVisuals, Completed OpVisuals, Started OpStage3, Completed OpStage3,
       Started OpScenes, Completed OpScenes]"
    by (simp add: new_events_def paused_state_proj)
  then show ?thesis
    by (simp add: paused_state_proj paused_project_stages hasSomeVisuals_def)
qed

section \<open>The project that a run leaves, exactly\<close>

lemma events_of_iff [simp]:
  "StopRequested \<in> events_of ops"
  "Started op \<in> events_of ops \<longleftrightarrow> op \<in> ops"
  "Completed op \<in> events_of ops \<longleftrightarrow> op \<in> ops"
  "Failed op \<in> events_of ops \<longleftrightarrow> op \<in> ops"
  by (auto simp: events_of_def)

lemma events_of_mono: "A \<subseteq> B \<Longrightarrow> events_of A \<subseteq> events_of B"
  by (auto simp: events_of_def)

lemma not_in_events:
  assumes "set ev \<subseteq> events_of ops" "op \<notin> ops"
  shows "Started op \<notin> set ev" "Completed op \<notin> set ev" "Failed op \<notin> set ev"
  using assms by (auto simp: events_of_def)

lemma pending_in_mono: "pending_in A options ev p \<Longrightarrow> A \<subseteq> B \<Longrightarrow> pending_in B options ev p"
  unfolding pending_in_def by blast

lemma stage3_tail:
  assumes cp: "currentProject st = Some ap"
  shows "\<exists>ev p'. tail_ok env t options {OpStage3, OpScenes} ap st (stage3_block env t (ap, st)) ev p'"
proof -
  consider (skip) "stage3Result ap \<noteq> None"
    | (paused) "stage3Result ap = None" "shouldStop st"
    | (fail3) e where "stage3Result ap = None" "\<not> shouldStop st" "analyzeStage3 env t = Inl e"
    | (fails) r3 e where "stage3Result ap = None" "\<not> shouldStop st" "analyzeStage3 env t = Inr r3"
        "extractScenes env t = Inl e"
    | (ok) r3 sc where "stage3Result ap = None" "\<not> shouldStop st" "analyzeStage3 env t = Inr r3"
        "extractScenes env t = Inr sc"
    by (cases "analyzeStage3 env t"; cases "extractScenes env t") auto
  then show ?thesis
  proof cases
    case skip
    have "tail_ok env t options {OpStage3, OpScenes} ap st (stage3_block env t (ap, st)) [] ap"
      using cp by (simp add: stage3_block_skip [OF skip] tail_ok_def out_state_def
          stage2_exact_def stage2_base_def)
    then show ?thesis by blast
  next
    case paused
    have "tail_ok env t options {OpStage3, OpScenes} ap st (stage3_block env t (ap, st)) [] ap"
      using cp paused by (simp add: stage3_block_paused tail_ok_def out_state_def
          stage2_exact_def stage2_base_def pending_in_def)
    then show ?thesis by blast
  next
    case fail3
    have "tail_ok env t options {OpStage3, OpScenes} ap st (stage3_block env t (ap, st))
        (Started OpStage3 # (if stop_during env OpStage3 then [StopRequested] else []) @
          [Failed OpStage3]) ap"
      using cp by (auto simp: stage3_block_fail_stage3 [OF fail3] tail_ok_def out_state_def
          stage2_exact_def stage2_base_def)
    then show ?thesis by blast
  next
    case fails
    have "tail_ok env t options {OpStage3, OpScenes} ap st (stage3_block env t (ap, st))
        (Started OpStage3 # (if stop_during env OpStage3 then [StopRequested] else []) @
          Completed OpStage3 # Started OpScenes #
          (if stop_during env OpScenes then [StopRequested] else []) @ [Failed OpScenes]) ap"
      using cp by (auto simp: stage3_block_fail_scenes [OF fails] tail_ok_def out_state_def
          stage2_exact_def stage2_base_def)
    then show ?thesis by blast
  next
    case ok
    have "tail_ok env t options {OpStage3, OpScenes} ap st (stage3_block env t (ap, st))
        (Started OpStage3 # (if stop_during env OpStage3 then [StopRequested] else []) @
          Completed OpStage3 # Started OpScenes #
          (if stop_during env OpScenes then [StopRequested] else []) @ [Completed OpScenes])
        (ap\<lparr>stage3Result := Some r3, fullScenes := Some sc\<rparr>)"
      using cp by (auto simp: stage3_block_ok [OF ok] tail_ok_def out_state_def
          stage2_exact_def stage2_base_def stage2_call_def stage2_context_def)
    then show ?thesis by blast
  qed
qed

lemma tail_ok_widen:
  assumes "tail_ok env t options A ap st r ev p'" "A \<subseteq> B"
    and "OpStage2 \<in> B \<and> OpStage2 \<notin> A \<longrightarrow> Failed OpVisuals \<notin> set ev"
    and "OpVisuals \<in> B \<and> OpVisuals \<notin> A \<longrightarrow> \<not> needVisuals options"
  shows "tail_ok env t options B ap st r ev p'"
proof -
  from assms(1) have ev: "set ev \<subseteq> events_of A"
    unfolding tail_ok_def by blast
  with events_of_mono [OF assms(2)] have ev': "set ev \<subseteq> events_of B" by blast
  have pend: "pending_in A options ev p' \<Longrightarrow> pending_in B options ev p'"
    using assms(2) by (rule pending_in_mono [rotated])
  show ?thesis
    using assms ev' pend unfolding tail_ok_def
    by (auto split: sum.splits)
qed

lemma visuals_tail:
  assumes cp: "currentProject st = Some ap"
  shows "\<exists>ev p'. tail_ok env t options {OpVisuals, OpStage3, OpScenes} ap st
      (and_then (visuals_block env options) (stage3_block env t) (ap, st)) ev p'"
proof -
  consider (skip) "\<not> needVisuals options"
    | (paused) "needVisuals options" "shouldStop st"
    | (fail) opts where "options = Some opts" "needVisuals (Some opts)" "\<not> shouldStop st"
        "stage2Result ap = None"
    | (ok) opts r2 where "options = Some opts" "needVisuals (Some opts)" "\<not> shouldStop st"
        "stage2Result ap = Some r2"
    by (cases options; cases "stage2Result ap") (auto simp: needVisuals_def)
  then show ?thesis
  proof cases
    case skip
    from stage3_tail [OF cp, of env t options] obtain ev p' where
      "tail_ok env t options {OpStage3, OpScenes} ap st (stage3_block env t (ap, st)) ev p'"
      by blast
    then have "tail_ok env t options {OpVisuals, OpStage3, OpScenes} ap st
        (stage3_block env t (ap, st)) ev p'"
      by (rule tail_ok_widen) (use skip in auto)
    then show ?thesis
      by (auto simp: and_then_def visuals_block_skip [OF skip])
  next
    case paused
    have "tail_ok env t options {OpVisuals, OpStage3, OpScenes} ap st
        (and_then (visuals_block env options) (stage3_block env t) (ap, st)) [] ap"
      using cp paused
      by (simp add: and_then_def visuals_block_paused tail_ok_def out_state_def
          stage2_exact_def stage2_base_def pending_in_def)
    then show ?thesis by blast
  next
    case fail
    have "tail_ok env t options {OpVisuals, OpStage3, OpScenes} ap st
        (and_then (visuals_block env options) (stage3_block env t) (ap, st))
        (Started OpVisuals # (if stop_during env OpVisuals then [StopRequested] else []) @
          [Failed OpVisuals]) ap"
      using cp fail
      by (auto simp: and_then_def visuals_block_fail tail_ok_def out_state_def
          stage2_exact_def stage2_base_def)
    then show ?thesis by blast
  next
    case ok
    let ?apV = "ap\<lparr>stage2Result := Some (mergeVisuals r2 (fst (generateAllVisuals env r2 opts)))\<rparr>"
    let ?stV = "(end_call OpVisuals True
        (begin_call env OpVisuals (st\<lparr>status := ANALYZING_STAGE_2_VISUALS\<rparr>)))
          \<lparr>currentProject := Some ?apV\<rparr>"
    let ?pre = "Started OpVisuals # (if stop_during env OpVisuals then [StopRequested] else []) @
        [Completed OpVisuals]"
    have run: "and_then (visuals_block env options) (stage3_block env t) (ap, st) =
        stage3_block env t (?apV, ?stV)"
      unfolding ok(1) by (simp add: and_then_def visuals_block_ok [OF ok(2-4)])
    have "currentProject ?stV = Some ?apV" by simp
    from stage3_tail [OF this, of env t options] obtain ev p' where
      tl: "tail_ok env t options {OpStage3, OpScenes} ?apV ?stV (stage3_block env t (?apV, ?stV)) ev p'"
      by blast
    then have ev: "set ev \<subseteq> events_of {OpStage3, OpScenes}"
      unfolding tail_ok_def by blast
    note no = not_in_events [OF ev]
    have no2: "Completed OpStage2 \<notin> set ev" "Failed OpStage2 \<notin> set ev"
      "Completed OpVisuals \<notin> set ev" "Failed OpVisuals \<notin> set ev"
      by (rule no; simp)+
    have next3: "Started OpStage3 \<in> set ev"
      if "\<not> stop_during env OpVisuals" "stage3Result ap = None"
    proof -
      have "stage3Result ?apV = None" "\<not> shouldStop ?stV"
        using that ok(3) by simp_all
      from stage3_block_starts [OF this, of env t] obtain x where
        "trace (out_state (stage3_block env t (?apV, ?stV))) = trace ?stV @ [Started OpStage3] @ x"
        by blast
      moreover from tl have "trace (out_state (stage3_block env t (?apV, ?stV))) = trace ?stV @ ev"
        unfolding tail_ok_def by blast
      ultimately have "ev = Started OpStage3 # x" by simp
      then show ?thesis by simp
    qed
    have "tail_ok env t options {OpVisuals, OpStage3, OpScenes} ap st
        (stage3_block env t (?apV, ?stV)) (?pre @ ev) p'"
      using tl ok no2 ev next3
        events_of_mono [of "{OpStage3, OpScenes}" "{OpVisuals, OpStage3, OpScenes}"]
      unfolding tail_ok_def stage2_exact_def stage2_base_def pending_in_def
      by (auto split: sum.splits simp: stage2_call_def stage2_context_def)
    then show ?thesis
      unfolding run by blast
  qed
qed

lemma stage2_tail:
  assumes cp: "currentProject st = Some ap"
  shows "\<exists>ev p'. tail_ok env t options {OpStage2, OpVisuals, OpStage3, OpScenes} ap st
      (and_then (stage2_block env t)
         (and_then (visuals_block env options) (stage3_block env t)) (ap, st)) ev p'"
proof -
  let ?rest = "and_then (visuals_block env options) (stage3_block env t)"
  consider (skip) "stage2Result ap \<noteq> None"
    | (paused) "stage2Result ap = None" "shouldStop st"
    | (fail) e where "stage2Result ap = None" "\<not> shouldStop st"
        "analyzeStage2 env t (fst (stage2_context ap)) (snd (stage2_context ap)) = Inl e"
    | (ok) r where "stage2Result ap = None" "\<not> shouldStop st"
        "analyzeStage2 env t (fst (stage2_context ap)) (snd (stage2_context ap)) = Inr r"
    by (cases "analyzeStage2 env t (fst (stage2_context ap)) (snd (stage2_context ap))") auto
  then show ?thesis
  proof cases
    case skip
    from visuals_tail [OF cp, of env t options] obtain ev p' where
      tl: "tail_ok env t options {OpVisuals, OpStage3, OpScenes} ap st (?rest (ap, st)) ev p'"
      by blast
    then have "Failed OpVisuals \<notin> set ev"
      using skip unfolding tail_ok_def by blast
    with tl have "tail_ok env t options {OpStage2, OpVisuals, OpStage3, OpScenes} ap st
        (?rest (ap, st)) ev p'"
      by (intro tail_ok_widen [OF tl]) auto
    then show ?thesis
      by (auto simp: and_then_def [of "stage2_block env t"] stage2_block_skip [OF skip])
  next
    case paused
    have "tail_ok env t options {OpStage2, OpVisuals, OpStage3, OpScenes} ap st
        (and_then (stage2_block env t) ?rest (ap, st)) [] ap"
      using cp paused
      by (simp add: and_then_def [of "stage2_block env t"] stage2_block_paused tail_ok_def
          out_state_def stage2_exact_def stage2_base_def pending_in_def)
    then show ?thesis by blast
  next
    case fail
    have "tail_ok env t options {OpStage2, OpVisuals, OpStage3, OpScenes} ap st
        (and_then (stage2_block env t) ?rest (ap, st))
        (Started OpStage2 # (if stop_during env OpStage2 then [StopRequested] else []) @
          [Failed OpStage2]) ap"
      using cp fail
      by (auto simp: and_then_def [of "stage2_block env t"] stage2_block_fail tail_ok_def
          out_state_def stage2_exact_def stage2_base_def stage2_call_def)
    then show ?thesis by blast
  next
    case ok
    let ?ap2 = "ap\<lparr>stage2Result := Some r\<rparr>"
    let ?st2 = "(end_call OpStage2 True
        (begin_call env OpStage2 (st\<lparr>status := ANALYZING_STAGE_2\<rparr>)))
          \<lparr>currentProject := Some ?ap2\<rparr>"
    let ?pre = "Started OpStage2 # (if stop_during env OpStage2 then [StopRequested] else []) @
        [Completed OpStage2]"
    have run: "and_then (stage2_block env t) ?rest (ap, st) = ?rest (?ap2, ?st2)"
      by (simp add: and_then_def [of "stage2_block env t"] stage2_block_ok [OF ok])
    have "currentProject ?st2 = Some ?ap2" by simp
    from visuals_tail [OF this, of env t options] obtain ev p' where
      tl: "tail_ok env t options {OpVisuals, OpStage3, OpScenes} ?ap2 ?st2 (?rest (?ap2, ?st2)) ev p'"
      by blast
    then have ev: "set ev \<subseteq> events_of {OpVisuals, OpStage3, OpScenes}"
      and s1: "stage1Result p' = stage1Result ap"
      and nf: "Failed OpVisuals \<notin> set ev"
      unfolding tail_ok_def by auto
    note no = not_in_events [OF ev]
    have no2: "Completed OpStage2 \<notin> set ev" "Failed OpStage2 \<notin> set ev"
      by (rule no; simp)+
    have call: "stage2_call env t p' = Inr r"
      using ok(3) s1 by (simp add: stage2_call_def stage2_context_def)
    have "tail_ok env t options {OpStage2, OpVisuals, OpStage3, OpScenes} ap st
        (?rest (?ap2, ?st2)) (?pre @ ev) p'"
      using tl no2 nf ev call s1
        events_of_mono [of "{OpVisuals, OpStage3, OpScenes}" "{OpStage2, OpVisuals, OpStage3, OpScenes}"]
      unfolding tail_ok_def stage2_exact_def stage2_base_def pending_in_def
      by (auto split: sum.splits)
    then show ?thesis
      unfolding run by blast
  qed
qed

lemma all_tail:
  assumes cp: "currentProject st = Some ap"
  shows "\<exists>ev p'. tail_ok env t options {OpStage1, OpStage2, OpVisuals, OpStage3, OpScenes} ap st
      (all_blocks env options t (ap, st)) ev p'"
proof -
  let ?rest = "and_then (stage2_block env t)
      (and_then (visuals_block env options) (stage3_block env t))"
  let ?all = "{OpStage1, OpStage2, OpVisuals, OpStage3, OpScenes}"
  consider (skip) "stage1Result ap \<noteq> None"
    | (paused) "stage1Result ap = None" "shouldStop st"
    | (fail) e where "stage1Result ap = None" "\<not> shouldStop st" "analyzeStage1 env t = Inl e"
    | (ok) r where "stage1Result ap = None" "\<not> shouldStop st" "analyzeStage1 env t = Inr r"
    by (cases "analyzeStage1 env t") auto
  then show ?thesis
  proof cases
    case skip
    from stage2_tail [OF cp, of env t options] obtain ev p' where
      tl: "tail_ok env t options {OpStage2, OpVisuals, OpStage3, OpScenes} ap st (?rest (ap, st)) ev p'"
      by blast
    have "tail_ok env t options ?all ap st (?rest (ap, st)) ev p'"
      by (intro tail_ok_widen [OF tl]) auto
    then show ?thesis
      unfolding all_blocks_def
      by (auto simp: and_then_def [of "stage1_block env t"] stage1_block_skip [OF skip])
  next
    case paused
    have "tail_ok env t options ?all ap st (all_blocks env options t (ap, st)) [] ap"
      using cp paused unfolding all_blocks_def
      by (simp add: and_then_def [of "stage1_block env t"] stage1_block_paused tail_ok_def
          out_state_def stage2_exact_def stage2_base_def pending_in_def)
    then show ?thesis by blast
  next
    case fail
    have "tail_ok env t options ?all ap st (all_blocks env options t (ap, st))
        (Started OpStage1 # (if stop_during env OpStage1 then [StopRequested] else []) @
          [Failed OpStage1]) ap"
      using cp fail unfolding all_blocks_def
      by (auto simp: and_then_def [of "stage1_block env t"] stage1_block_fail tail_ok_def
          out_state_def stage2_exact_def stage2_base_def)
    then show ?thesis by blast
  next
    case ok
    let ?ap1 = "ap\<lparr>stage1Result := Some r\<rparr>"
    let ?st1 = "(end_call OpStage1 True
        (begin_call env OpStage1 (st\<lparr>status := ANALYZING_STAGE_1\<rparr>)))
          \<lparr>currentProject := Some ?ap1\<rparr>"
    let ?pre = "Started OpStage1 # (if stop_during env OpStage1 then [StopRequested] else []) @
        [Completed OpStage1]"
    have run: "all_blocks env options t (ap, st) = ?rest (?ap1, ?st1)"
      unfolding all_blocks_def
      by (simp add: and_then_def [of "stage1_block env t"] stage1_block_ok [OF ok])
    have "currentProject ?st1 = Some ?ap1" by simp
    from stage2_tail [OF this, of env t options] obtain ev p' where
      tl: "tail_ok env t options {OpStage2, OpVisuals, OpStage3, OpScenes} ?ap1 ?st1
        (?rest (?ap1, ?st1)) ev p'"
      by blast
    then have ev: "set ev \<subseteq> events_of {OpStage2, OpVisuals, OpStage3, OpScenes}"
      unfolding tail_ok_def by auto
    have "tail_ok env t options ?all ap st (?rest (?ap1, ?st1)) (?pre @ ev) p'"
      using tl ev
        events_of_mono [of "{OpStage2, OpVisuals, OpStage3, OpScenes}" ?all]
      unfolding tail_ok_def stage2_exact_def stage2_base_def pending_in_def
      by (auto split: sum.splits)
    then show ?thesis
      unfolding run by blast
  qed
qed

lemma pending_in_all:
  "pending_in {OpStage1, OpStage2, OpVisuals, OpStage3, OpScenes} options ev p = pending options ev p"
  by (simp add: pending_in_def pending_def)

text \<open>What a run guarantees beyond \<open>run_facts\<close>, for the same events and the same project.\<close>

lemma run_exact:
  assumes nb: "trim (scriptToAnalyze st) \<noteq> []"
    and tr: "trace (executeAnalysis env options r st) = trace st @ ev"
    and cp: "currentProject (executeAnalysis env options r st) = Some p'"
  shows "stage2_exact env (scriptToAnalyze st) options ev (working_project r st) p'"
    and "Failed OpVisuals \<notin> set ev"
    and "status (executeAnalysis env options r st) = PAUSED \<longrightarrow> pending options ev p'"
    and "status (executeAnalysis env options r st) = COMPLETE \<longrightarrow>
      (needVisuals options \<longrightarrow> Completed OpVisuals \<in> set ev)"
    and "Completed OpVisuals \<in> set ev \<and> \<not> stop_during env OpVisuals \<and>
      stage3Result (working_project r st) = None \<longrightarrow> Started OpStage3 \<in> set ev"
proof -
  let ?t = "scriptToAnalyze st"
  let ?ap = "working_project r st"
  let ?st0 = "entry_state options r st"
  let ?res = "all_blocks env options ?t (?ap, ?st0)"
  have run: "executeAnalysis env options r st = finish ?res"
    using nb by (rule executeAnalysis_nonblank)
  have "currentProject ?st0 = Some ?ap" by simp
  from all_tail [OF this, of env ?t options] obtain ev0 p0 where
    tl: "tail_ok env ?t options {OpStage1, OpStage2, OpVisuals, OpStage3, OpScenes} ?ap ?st0 ?res ev0 p0"
    by blast
  then have "trace (out_state ?res) = trace ?st0 @ ev0" "currentProject (out_state ?res) = Some p0"
    unfolding tail_ok_def by blast+
  with tr cp have same: "ev0 = ev" "p0 = p'"
    unfolding run by simp_all
  note tl' = tl [unfolded same]
  show "stage2_exact env ?t options ev ?ap p'"
    using tl' unfolding tail_ok_def by blast
  show "Failed OpVisuals \<notin> set ev"
    using tl' unfolding tail_ok_def by auto
  show "Completed OpVisuals \<in> set ev \<and> \<not> stop_during env OpVisuals \<and>
      stage3Result (working_project r st) = None \<longrightarrow> Started OpStage3 \<in> set ev"
    using tl' unfolding tail_ok_def by blast
  show "status (executeAnalysis env options r st) = PAUSED \<longrightarrow> pending options ev p'"
    using tl' unfolding tail_ok_def run pending_in_all
    by (auto split: sum.splits)
  show "status (executeAnalysis env options r st) = COMPLETE \<longrightarrow>
      (needVisuals options \<longrightarrow> Completed OpVisuals \<in> set ev)"
  proof (cases ?res)
    case (Inl s)
    from all_blocks_contract [of env ?t options] obtain ev1 where
      "segment_ok env ?t [OpStage1, OpStage2, OpVisuals, OpStage3, OpScenes] ?ap ?st0 ?res ev1"
      unfolding block_contract_def by blast
    then have "status s = PAUSED \<or> status s = ERROR"
      unfolding Inl segment_ok_Inl by blast
    then show ?thesis
      unfolding run Inl by auto
  next
    case (Inr w)
    obtain ap' s' where w: "w = (ap', s')" by (cases w)
    from tl' show ?thesis
      unfolding tail_ok_def Inr w by simp
  qed
qed

section \<open>A run on its own, among runs that may overlap\<close>

lemma drive_done [simp]: "drive env n (st, []) = (st, [])"
  by (cases n) simp_all

lemma spawn_simps [simp]:
  "spawn (st, None) runs = (st, runs)"
  "spawn (st, Some rn) runs = (st, runs @ [rn])"
  by (simp_all add: spawn_def)

lemma stop_click [simp]:
  "step env (Click ClickStop) (st, runs) =
     (handleStopAnalysis (st\<lparr>trace := trace st @ [StopRequested]\<rparr>), runs)"
  by (simp add: step_def click_on_def)

lemma returns_single:
  "step env (Returns 0) (st, [rn]) = spawn (settle env rn st) []"
  by (cases "settle env rn st") (auto simp: step_def returns_def split: option.splits)

lemma drive_single:
  "drive env (Suc n) (st, [rn]) =
     drive env n
       (spawn (settle env rn
          (if stop_during env (run_awaiting rn)
           then handleStopAnalysis (st\<lparr>trace := trace st @ [StopRequested]\<rparr>) else st)) [])"
  by (simp add: returns_single)

declare drive.simps [simp del]

lemma drive_stage3:
  "drive env (Suc (Suc n)) (spawn (to_stage3 options t ap st) []) =
     (finish (stage3_block env t (ap, st)), [])"
  by (simp add: to_stage3_def suspend_def drive_single settle_def stage3_block_def finish_def
      begin_call_def end_call_def handleStopAnalysis_def Let_def split: sum.splits)

lemma drive_visuals:
  "drive env (Suc (Suc (Suc n))) (spawn (to_visuals options t ap st) []) =
     (finish (and_then (visuals_block env options) (stage3_block env t) (ap, st)), [])"
proof (cases "needVisuals options")
  case False
  then show ?thesis
    by (simp add: to_visuals_def drive_stage3 and_then_def visuals_block_skip)
next
  case True
  then obtain opts where opts: "options = Some opts"
    by (cases options) (auto simp: needVisuals_def)
  show ?thesis
  proof (cases "shouldStop st")
    case stop: True
    with True show ?thesis
      by (simp add: to_visuals_def and_then_def visuals_block_paused finish_def)
  next
    case nostop: False
    show ?thesis
    proof (cases "stage2Result ap")
      case None
      with True nostop show ?thesis
        unfolding opts
        by (simp add: to_visuals_def suspend_def drive_single settle_def and_then_def
            visuals_block_fail finish_def begin_call_def end_call_def handleStopAnalysis_def)
    next
      case (Some r2)
      with True nostop show ?thesis
        unfolding opts
        by (simp add: to_visuals_def suspend_def drive_single settle_def and_then_def
            visuals_block_ok drive_stage3 begin_call_def end_call_def handleStopAnalysis_def
            Let_def)
    qed
  qed
qed

lemma drive_stage2:
  "drive env (Suc (Suc (Suc (Suc n)))) (spawn (to_stage2 options t ap st) []) =
     (finish (and_then (stage2_block env t)
        (and_then (visuals_block env options) (stage3_block env t)) (ap, st)), [])"
proof (cases "stage2Result ap")
  case (Some r2)
  then show ?thesis
    by (simp add: to_stage2_def drive_visuals and_then_def [of "stage2_block env t"]
        stage2_block_skip)
next
  case None
  note True = None
  show ?thesis
  proof (cases "shouldStop st")
    case stop: True
    with True show ?thesis
      by (simp add: to_stage2_def and_then_def [of "stage2_block env t"] stage2_block_paused
          finish_def)
  next
    case nostop: False
    show ?thesis
    proof (cases "analyzeStage2 env t (fst (stage2_context ap)) (snd (stage2_context ap))")
      case (Inl e)
      from True nostop Inl show ?thesis
        by (simp add: to_stage2_def suspend_def drive_single settle_def
            and_then_def [of "stage2_block env t"] stage2_block_fail [OF True nostop Inl]
            finish_def begin_call_def end_call_def handleStopAnalysis_def stage2_context_def
            Let_def split: option.splits)
    next
      case (Inr r2)
      from True nostop Inr show ?thesis
        by (simp add: to_stage2_def suspend_def drive_single settle_def
            and_then_def [of "stage2_block env t"] stage2_block_ok [OF True nostop Inr]
            drive_visuals begin_call_def end_call_def handleStopAnalysis_def stage2_context_def
            Let_def split: option.splits)
    qed
  qed
qed

lemma drive_stage1:
  "drive env (Suc (Suc (Suc (Suc (Suc n))))) (spawn (to_stage1 options t ap st) []) =
     (finish (all_blocks env options t (ap, st)), [])"
proof (cases "stage1Result ap")
  case (Some r1)
  then show ?thesis
    unfolding all_blocks_def
    by (simp add: to_stage1_def drive_stage2 and_then_def [of "stage1_block env t"]
        stage1_block_skip)
next
  case None
  note True = None
  show ?thesis
  proof (cases "shouldStop st")
    case stop: True
    with True show ?thesis
      unfolding all_blocks_def
      by (simp add: to_stage1_def and_then_def [of "stage1_block env t"] stage1_block_paused
          finish_def)
  next
    case nostop: False
    show ?thesis
    proof (cases "analyzeStage1 env t")
      case (Inl e)
      from True nostop Inl show ?thesis
        unfolding all_blocks_def
        by (simp add: to_stage1_def suspend_def drive_single settle_def
            and_then_def [of "stage1_block env t"] stage1_block_fail [OF True nostop Inl]
            finish_def begin_call_def end_call_def handleStopAnalysis_def)
    next
      case (Inr r1)
      from True nostop Inr show ?thesis
        unfolding all_blocks_def
        by (simp add: to_stage1_def suspend_def drive_single settle_def
            and_then_def [of "stage1_block env t"] stage1_block_ok [OF True nostop Inr]
            drive_stage2 begin_call_def end_call_def handleStopAnalysis_def Let_def)
    qed
  qed
qed

text \<open>
  \<open>executeAnalysis\<close> is the run that is started with no other run in flight, and during
  which nothing but Stop is clicked: it returns after at most five calls.
\<close>

lemma executeAnalysis_alone:
  "drive env 5 (spawn (launch options r st) []) = (executeAnalysis env options r st, [])"
proof (cases "trim (scriptToAnalyze st) = []")
  case True
  then show ?thesis
    by (simp add: launch_def executeAnalysis_def Let_def)
next
  case False
  have "drive env (Suc (Suc (Suc (Suc (Suc 0)))))
      (spawn (to_stage1 options (scriptToAnalyze st) (working_project r st)
         (entry_state options r st)) []) =
      (finish (all_blocks env options (scriptToAnalyze st)
         (working_project r st, entry_state options r st)), [])"
    by (rule drive_stage1)
  then show ?thesis
    using False
    by (simp add: launch_def executeAnalysis_def run_blocks_def Let_def eval_nat_numeral)
qed

text \<open>And \<open>handleResumeAnalysis\<close> is the click on Resume with no run in flight.\<close>

lemma handleResumeAnalysis_alone:
  "drive env 5 (step env (Click ClickResume) (st, [])) = (handleResumeAnalysis env st, [])"
proof (cases "currentProject st")
  case None
  then show ?thesis
    by (simp add: step_def click_on_def handleResumeAnalysis_def)
next
  case (Some p)
  then show ?thesis
    by (simp add: step_def click_on_def handleResumeAnalysis_def executeAnalysis_alone)
qed

text \<open>
  Resume clicked while the stopped run still awaits its stage-1 call: a second run is
  started next to the first, which goes on when its call returns, the stop flag being
  cleared; both runs call stage 1 and then stage 2.
\<close>

lemma resume_during_call:
  "trace (fst (exec env_ok [Click ClickStop, Click ClickResume, Returns 0, Returns 1]
      (spawn (launch None False submitted_state) []))) =
     [Started OpStage1, StopRequested, Started OpStage1, Completed OpStage1, Started OpStage2,
      Completed OpStage1, Started OpStage2]"
  "map run_awaiting (snd (exec env_ok [Click ClickStop, Click ClickResume, Returns 0, Returns 1]
      (spawn (launch None False submitted_state) []))) = [OpStage2, OpStage2]"
  by (simp_all add: exec_def step_def click_on_def returns_def launch_def to_stage1_def
      to_stage2_def suspend_def settle_def handleStopAnalysis_def end_call_def
      working_project_def entry_state_def sample_script_nonblank Let_def
      submitted_state_def initial_state_def createNewProject_def)

subsection \<open>What holds of every step, whatever runs overlap\<close>

lemma suspend_proj [simp]:
  "trace (fst (suspend op options t ap st)) = trace st @ [Started op]"
  "shouldStop (fst (suspend op options t ap st)) = shouldStop st"
  by (simp_all add: suspend_def)

lemma to_stage3_quiet:
  "\<exists>ev. trace (fst (to_stage3 options t ap st)) = trace st @ ev \<and> (shouldStop st \<longrightarrow> ev = [])"
  by (simp add: to_stage3_def)

lemma to_visuals_quiet:
  "\<exists>ev. trace (fst (to_visuals options t ap st)) = trace st @ ev \<and> (shouldStop st \<longrightarrow> ev = [])"
  by (simp add: to_visuals_def to_stage3_quiet)

lemma to_stage2_quiet:
  "\<exists>ev. trace (fst (to_stage2 options t ap st)) = trace st @ ev \<and> (shouldStop st \<longrightarrow> ev = [])"
  by (simp add: to_stage2_def to_visuals_quiet)

lemma to_stage1_quiet:
  "\<exists>ev. trace (fst (to_stage1 options t ap st)) = trace st @ ev \<and> (shouldStop st \<longrightarrow> ev = [])"
  by (simp add: to_stage1_def to_stage2_quiet)

lemma after_call:
  assumes "\<exists>ev. trace (fst X) = trace st' @ ev \<and> (shouldStop st' \<longrightarrow> ev = [])"
    and "trace st' = trace st @ [e]" "shouldStop st' = shouldStop st"
    and "\<forall>op. e \<noteq> Started op"
  shows "\<exists>ev. trace (fst X) = trace st @ ev \<and>
      (\<forall>op. Started op \<in> set ev \<and> op \<noteq> OpScenes \<longrightarrow> \<not> shouldStop st)"
proof -
  from assms(1) obtain ev where "trace (fst X) = trace st' @ ev" "shouldStop st' \<longrightarrow> ev = []"
    by blast
  with assms(2-4) have "trace (fst X) = trace st @ e # ev"
    "\<forall>op. Started op \<in> set (e # ev) \<and> op \<noteq> OpScenes \<longrightarrow> \<not> shouldStop st"
    by auto
  then show ?thesis by blast
qed

lemma settle_quiet:
  "\<exists>ev. trace (fst (settle env rn st)) = trace st @ ev \<and>
     (\<forall>op. Started op \<in> set ev \<and> op \<noteq> OpScenes \<longrightarrow> \<not> shouldStop st)"
proof (cases "run_awaiting rn")
  case OpStage1
  show ?thesis
  proof (cases "analyzeStage1 env (run_script rn)")
    case (Inl e)
    with OpStage1 show ?thesis by (simp add: settle_def)
  next
    case (Inr r1)
    let ?ap = "(run_project rn)\<lparr>stage1Result := Some r1\<rparr>"
    let ?st = "(end_call OpStage1 True st)\<lparr>currentProject := Some ?ap\<rparr>"
    have "\<exists>ev. trace (fst (to_stage2 (run_options rn) (run_script rn) ?ap ?st)) = trace st @ ev \<and>
        (\<forall>op. Started op \<in> set ev \<and> op \<noteq> OpScenes \<longrightarrow> \<not> shouldStop st)"
      by (rule after_call [OF to_stage2_quiet, where e = "Completed OpStage1"]) simp_all
    with OpStage1 Inr show ?thesis by (simp add: settle_def Let_def)
  qed
next
  case OpStage2
  show ?thesis
  proof (cases "stage2_call env (run_script rn) (run_project rn)")
    case (Inl e)
    with OpStage2 show ?thesis
      by (simp add: settle_def stage2_call_def stage2_context_def Let_def split: option.splits)
  next
    case (Inr r2)
    let ?ap = "(run_project rn)\<lparr>stage2Result := Some r2\<rparr>"
    let ?st = "(end_call OpStage2 True st)\<lparr>currentProject := Some ?ap\<rparr>"
    have "\<exists>ev. trace (fst (to_visuals (run_options rn) (run_script rn) ?ap ?st)) = trace st @ ev \<and>
        (\<forall>op. Started op \<in> set ev \<and> op \<noteq> OpScenes \<longrightarrow> \<not> shouldStop st)"
      by (rule after_call [OF to_visuals_quiet, where e = "Completed OpStage2"]) simp_all
    with OpStage2 Inr show ?thesis
      by (simp add: settle_def stage2_call_def stage2_context_def Let_def split: option.splits)
  qed
next
  case OpVisuals
  show ?thesis
  proof (cases "stage2Result (run_project rn)")
    case None
    with OpVisuals show ?thesis by (simp add: settle_def)
  next
    case r2: (Some r2)
    show ?thesis
    proof (cases "run_options rn")
      case None
      with OpVisuals r2 show ?thesis by (simp add: settle_def)
    next
      case (Some opts)
      let ?ap = "(run_project rn)\<lparr>stage2Result :=
          Some (mergeVisuals r2 (fst (generateAllVisuals env r2 opts)))\<rparr>"
      let ?st = "(end_call OpVisuals True st)\<lparr>currentProject := Some ?ap\<rparr>"
      have "\<exists>ev. trace (fst (to_stage3 (Some opts) (run_script rn) ?ap ?st)) = trace st @ ev \<and>
          (\<forall>op. Started op \<in> set ev \<and> op \<noteq> OpScenes \<longrightarrow> \<not> shouldStop st)"
        by (rule after_call [OF to_stage3_quiet, where e = "Completed OpVisuals"]) simp_all
      with OpVisuals r2 Some show ?thesis by (simp add: settle_def Let_def)
    qed
  qed
next
  case OpStage3
  then show ?thesis
    by (cases "analyzeStage3 env (run_script rn)") (simp_all add: settle_def)
next
  case OpScenes
  then show ?thesis
    by (cases "extractScenes env (run_script rn)") (simp_all add: settle_def Let_def)
qed

lemma launch_quiet:
  "\<exists>ev. trace (fst (launch options r st)) = trace st @ ev"
proof (cases "trim (scriptToAnalyze st) = []")
  case True
  then show ?thesis by (simp add: launch_def Let_def)
next
  case False
  from to_stage1_quiet [of options "scriptToAnalyze st" "working_project r st"
      "entry_state options r st"]
  show ?thesis using False by (auto simp: launch_def Let_def)
qed

lemma step_quiet:
  "\<exists>ev. trace (fst (step env a (st, runs))) = trace st @ ev \<and>
     (\<forall>op. Started op \<in> set ev \<and> op \<noteq> OpScenes \<and> a \<noteq> Click ClickResume \<longrightarrow>
        \<not> shouldStop st)"
proof (cases a)
  case (Click c)
  show ?thesis
  proof (cases c)
    case ClickStop
    with Click show ?thesis by (simp add: handleStopAnalysis_def)
  next
    case ClickResume
    show ?thesis
    proof (cases "currentProject st")
      case None
      with Click ClickResume show ?thesis by (simp add: step_def click_on_def)
    next
      case (Some p)
      from launch_quiet [of "visualOptions st" True "st\<lparr>shouldStop := False\<rparr>"]
      show ?thesis using Click ClickResume Some
        by (auto simp: step_def click_on_def spawn_def)
    qed
  next
    case ClickCancel
    with Click show ?thesis by (simp add: step_def click_on_def handleNewProject_def)
  qed
next
  case (Returns k)
  show ?thesis
  proof (cases "k < length runs")
    case False
    with Returns show ?thesis by (simp add: step_def returns_def)
  next
    case True
    have "fst (step env a (st, runs)) = fst (settle env (runs ! k) st)"
      using Returns True
      by (cases "settle env (runs ! k) st")
        (auto simp: step_def returns_def split: option.splits)
    with settle_quiet [of env "runs ! k" st] show ?thesis by auto
  qed
qed

lemma click_aborts_nothing: "prefix runs (snd (step env (Click c) (st, runs)))"
  by (cases c) (auto simp: step_def click_on_def spawn_def split: option.splits)

section \<open>Failure\<close>

lemma failed_is_last:
  "ev \<noteq> [] \<Longrightarrow> is_Failed (last ev) \<Longrightarrow> \<forall>e \<in> set (butlast ev). \<not> is_Failed e \<Longrightarrow>
   dropWhile (\<lambda>e. \<not> is_Failed e) ev = [last ev]"
  by (induction ev) (auto split: if_splits)

lemma failed_event_last:
  "ev \<noteq> [] \<Longrightarrow> \<forall>e \<in> set (butlast ev). \<not> is_Failed e \<Longrightarrow> Failed op \<in> set ev \<Longrightarrow>
   last ev = Failed op"
  by (induction ev) (auto simp: is_Failed_def split: if_splits)

lemma last_in_set_failed: "ev \<noteq> [] \<Longrightarrow> is_Failed (last ev) \<Longrightarrow> \<exists>e \<in> set ev. is_Failed e"
  using last_in_set by blast

lemma thrown_call_fails:
  assumes "Started op \<in> set ev"
    and "Started op \<in> set ev \<longrightarrow> Completed op \<in> set ev \<or> Failed op \<in> set ev"
    and "Completed op \<in> set ev \<longrightarrow> \<not> thrown"
    and "thrown"
    and "(\<forall>e \<in> set ev. \<not> is_Failed e) \<or>
         ev \<noteq> [] \<and> (\<forall>e \<in> set (butlast ev). \<not> is_Failed e)"
  shows "last ev = Failed op"
proof -
  from assms(1-4) have f: "Failed op \<in> set ev" by blast
  moreover have "is_Failed (Failed op)"
    by (simp add: is_Failed_def)
  ultimately have "\<not> (\<forall>e \<in> set ev. \<not> is_Failed e)" by blast
  with assms(5) have "ev \<noteq> []" "\<forall>e \<in> set (butlast ev). \<not> is_Failed e" by blast+
  from this f show ?thesis by (rule failed_event_last)
qed



section \<open>Stop\<close>

lemma to_stage_flag [simp]:
  "shouldStop (fst (to_stage3 options t ap st)) = shouldStop st"
  "shouldStop (fst (to_visuals options t ap st)) = shouldStop st"
  "shouldStop (fst (to_stage2 options t ap st)) = shouldStop st"
  "shouldStop (fst (to_stage1 options t ap st)) = shouldStop st"
  by (simp_all add: to_stage3_def to_visuals_def to_stage2_def to_stage1_def)

lemma launch_flag:
  "shouldStop (fst (launch options r st)) = (r \<and> shouldStop st)"
  by (simp add: launch_def Let_def)

text \<open>
  C5. Whatever runs are in flight and whatever is clicked: a step of the pipeline other
  than the scene extraction is started only at a moment when the stop flag is clear (the
  flag is set by Stop and cleared by Cancel, by a fresh start and by Resume, which starts
  its run with the flag just cleared), and no click takes a run in flight out: its call
  is awaited to the end. The orchestrator started with no other run in
  flight, and with no button other than Stop clicked while it runs, returns after at most
  five calls, and then: a click on Stop is recorded only while an operation is in flight,
  and that operation still runs to its end, completed or failed; a run entered with the
  stop flag set starts nothing; after a click on Stop no operation is started, except the
  scene extraction, which is started exactly when the production breakdown has returned,
  also when Stop was clicked during the breakdown; the stop flag at the end is set exactly
  when it was set at the entry of a resumed run or Stop was clicked during the run; the
  status at the end is error exactly when an operation failed, paused exactly when no
  operation failed, the flag is set and a step is still pending (a stage without result, or
  requested visuals whose step has not completed in the run), and complete otherwise, that
  is also when the flag was set during the last step; and the project at the end keeps
  every stage result of the working project and holds every result completed in the run,
  and nothing else has changed in its stage fields.
\<close>

theorem stop_is_cooperative:
  assumes "trim (scriptToAnalyze st) \<noteq> []"
  shows "(\<exists>new. trace (fst (step env a (s, runs))) = trace s @ new \<and>
        (\<forall>op. Started op \<in> set new \<and> op \<noteq> OpScenes \<and> a \<noteq> Click ClickResume \<longrightarrow>
           \<not> shouldStop s)) \<and>
      prefix runs (snd (step env (Click c) (s, runs))) \<and>
      shouldStop (fst (step env (Click ClickStop) (s, runs))) \<and>
      \<not> shouldStop (fst (step env (Click ClickCancel) (s, runs))) \<and>
      (currentProject s \<noteq> None \<longrightarrow> \<not> shouldStop (fst (step env (Click ClickResume) (s, runs)))) \<and>
      \<not> shouldStop (fst (launch options False s)) \<and>
      drive env 5 (spawn (launch options r st) []) = (executeAnalysis env options r st, []) \<and>
      (\<exists>ev p'.
      trace (executeAnalysis env options r st) = trace st @ ev \<and>
      currentProject (executeAnalysis env options r st) = Some p' \<and>
      calls_closed ev \<and>
      (r \<and> shouldStop st \<longrightarrow> ev = []) \<and>
      set (late_starts False ev) \<subseteq> {OpScenes} \<and>
      (Started OpScenes \<in> set ev) = (Completed OpStage3 \<in> set ev) \<and>
      shouldStop (executeAnalysis env options r st) =
        (r \<and> shouldStop st \<or> StopRequested \<in> set ev) \<and>
      (status (executeAnalysis env options r st) = PAUSED \<or>
       status (executeAnalysis env options r st) = ERROR \<or>
       status (executeAnalysis env options r st) = COMPLETE) \<and>
      (status (executeAnalysis env options r st) = PAUSED \<longrightarrow>
         shouldStop (executeAnalysis env options r st)) \<and>
      ((status (executeAnalysis env options r st) = ERROR) = (\<exists>e \<in> set ev. is_Failed e)) \<and>
      (status (executeAnalysis env options r st) = COMPLETE \<longrightarrow>
         stage1Result p' \<noteq> None \<and> stage2Result p' \<noteq> None \<and> stage3Result p' \<noteq> None) \<and>
      (shouldStop (executeAnalysis env options r st) \<and> (\<forall>e \<in> set ev. \<not> is_Failed e) \<and>
       stage3Result p' = None \<longrightarrow> status (executeAnalysis env options r st) = PAUSED) \<and>
      ((status (executeAnalysis env options r st) = PAUSED) =
         ((\<forall>e \<in> set ev. \<not> is_Failed e) \<and> shouldStop (executeAnalysis env options r st) \<and>
          pending options ev p')) \<and>
      ((status (executeAnalysis env options r st) = COMPLETE) =
         ((\<forall>e \<in> set ev. \<not> is_Failed e) \<and>
          \<not> (shouldStop (executeAnalysis env options r st) \<and> pending options ev p'))) \<and>
      keeps (working_project r st) p' \<and>
      merged env (scriptToAnalyze st) ev p' \<and>
      unmerged ev (working_project r st) p' \<and>
      stage2_exact env (scriptToAnalyze st) options ev (working_project r st) p')"
proof (intro conjI)
  show "\<exists>new. trace (fst (step env a (s, runs))) = trace s @ new \<and>
        (\<forall>op. Started op \<in> set new \<and> op \<noteq> OpScenes \<and> a \<noteq> Click ClickResume \<longrightarrow>
           \<not> shouldStop s)"
    by (rule step_quiet)
  show "prefix runs (snd (step env (Click c) (s, runs)))"
    by (rule click_aborts_nothing)
  show "shouldStop (fst (step env (Click ClickStop) (s, runs)))"
    by (simp add: handleStopAnalysis_def)
  show "\<not> shouldStop (fst (step env (Click ClickCancel) (s, runs)))"
    by (simp add: step_def click_on_def handleNewProject_def)
  show "currentProject s \<noteq> None \<longrightarrow> \<not> shouldStop (fst (step env (Click ClickResume) (s, runs)))"
    by (auto simp: step_def click_on_def spawn_def launch_flag)
  show "\<not> shouldStop (fst (launch options False s))"
    by (simp add: launch_flag)
  show "drive env 5 (spawn (launch options r st) []) = (executeAnalysis env options r st, [])"
    by (rule executeAnalysis_alone)
  show "\<exists>ev p'.
      trace (executeAnalysis env options r st) = trace st @ ev \<and>
      currentProject (executeAnalysis env options r st) = Some p' \<and>
      calls_closed ev \<and>
      (r \<and> shouldStop st \<longrightarrow> ev = []) \<and>
      set (late_starts False ev) \<subseteq> {OpScenes} \<and>
      (Started OpScenes \<in> set ev) = (Completed OpStage3 \<in> set ev) \<and>
      shouldStop (executeAnalysis env options r st) =
        (r \<and> shouldStop st \<or> StopRequested \<in> set ev) \<and>
      (status (executeAnalysis env options r st) = PAUSED \<or>
       status (executeAnalysis env options r st) = ERROR \<or>
       status (executeAnalysis env options r st) = COMPLETE) \<and>
      (status (executeAnalysis env options r st) = PAUSED \<longrightarrow>
         shouldStop (executeAnalysis env options r st)) \<and>
      ((status (executeAnalysis env options r st) = ERROR) = (\<exists>e \<in> set ev. is_Failed e)) \<and>
      (status (executeAnalysis env options r st) = COMPLETE \<longrightarrow>
         stage1Result p' \<noteq> None \<and> stage2Result p' \<noteq> None \<and> stage3Result p' \<noteq> None) \<and>
      (shouldStop (executeAnalysis env options r st) \<and> (\<forall>e \<in> set ev. \<not> is_Failed e) \<and>
       stage3Result p' = None \<longrightarrow> status (executeAnalysis env options r st) = PAUSED) \<and>
      ((status (executeAnalysis env options r st) = PAUSED) =
         ((\<forall>e \<in> set ev. \<not> is_Failed e) \<and> shouldStop (executeAnalysis env options r st) \<and>
          pending options ev p')) \<and>
      ((status (executeAnalysis env options r st) = COMPLETE) =
         ((\<forall>e \<in> set ev. \<not> is_Failed e) \<and>
          \<not> (shouldStop (executeAnalysis env options r st) \<and> pending options ev p'))) \<and>
      keeps (working_project r st) p' \<and>
      merged env (scriptToAnalyze st) ev p' \<and>
      unmerged ev (working_project r st) p' \<and>
      stage2_exact env (scriptToAnalyze st) options ev (working_project r st) p'"
  proof (rule run_facts [OF assms, of env options r], goal_cases)
    case facts: (1 ev p')
    let ?st' = "executeAnalysis env options r st"
    note exact = run_exact [OF assms facts(1) facts(12)]
    define F where "F = (\<exists>e \<in> set ev. is_Failed e)"
    define P where "P = pending options ev p'"
    define R where "R = (stage1Result p' \<noteq> None \<and> stage2Result p' \<noteq> None \<and>
      stage3Result p' \<noteq> None)"
    have last: "ev \<noteq> [] \<and> is_Failed (last ev) \<longrightarrow> F"
      unfolding F_def using last_in_set_failed [of ev] by blast
    have cls: "status ?st' = PAUSED \<and> shouldStop ?st' \<and> \<not> F \<or>
        status ?st' = ERROR \<and> F \<or> status ?st' = COMPLETE \<and> \<not> F \<and> R"
      using facts(11) last unfolding F_def R_def by blast
    have p1: "status ?st' = PAUSED \<longrightarrow> P"
      using exact(3) unfolding P_def .
    have p2: "status ?st' = COMPLETE \<longrightarrow> \<not> P"
      using cls exact(4) unfolding P_def R_def pending_def by auto
    have p3: "stage3Result p' = None \<longrightarrow> P"
      unfolding P_def pending_def by simp
    have pair: "(Started OpScenes \<in> set ev) = (Completed OpStage3 \<in> set ev)"
      using facts(10) unfolding outcomes_match_def by blast
    have s1: "status ?st' = PAUSED \<or> status ?st' = ERROR \<or> status ?st' = COMPLETE"
      using cls by blast
    have s2: "status ?st' = PAUSED \<longrightarrow> shouldStop ?st'"
      using cls by auto
    have s3: "(status ?st' = ERROR) = F"
      using cls by auto
    have s4: "status ?st' = COMPLETE \<longrightarrow> R"
      using cls by auto
    have s5: "shouldStop ?st' \<and> \<not> F \<and> stage3Result p' = None \<longrightarrow> status ?st' = PAUSED"
      using cls p2 p3 by auto
    have s6: "(status ?st' = PAUSED) = (\<not> F \<and> shouldStop ?st' \<and> P)"
      using cls p1 p2 by auto
    have s7: "(status ?st' = COMPLETE) = (\<not> F \<and> \<not> (shouldStop ?st' \<and> P))"
      using cls p1 p2 by auto
    have pk: "keeps (working_project r st) p'" "merged env (scriptToAnalyze st) ev p'"
      "unmerged ev (working_project r st) p'"
      using facts(13) by (simp_all add: project_ok_def)
    have t5: "shouldStop ?st' \<and> (\<forall>e \<in> set ev. \<not> is_Failed e) \<and> stage3Result p' = None \<longrightarrow>
        status ?st' = PAUSED"
      using s5 unfolding F_def by blast
    have t6: "(status ?st' = PAUSED) =
        ((\<forall>e \<in> set ev. \<not> is_Failed e) \<and> shouldStop ?st' \<and> pending options ev p')"
      using s6 unfolding F_def P_def by blast
    have t7: "(status ?st' = COMPLETE) =
        ((\<forall>e \<in> set ev. \<not> is_Failed e) \<and> \<not> (shouldStop ?st' \<and> pending options ev p'))"
      using s7 unfolding F_def P_def by blast
    show ?case
      by (intro exI [of _ ev] exI [of _ p'] conjI facts(1) facts(12) facts(2) facts(5) facts(6)
          pair facts(4) s1 s2 s3 [unfolded F_def] s4 [unfolded R_def] t5 t6 t7 pk exact(1))
  qed
qed

theorem stop_is_cooperative_witness:
  "trim (scriptToAnalyze submitted_state) \<noteq> [] \<and>
   trace (executeAnalysis (env_stop_at OpStage1) None False submitted_state) =
     [Started OpStage1, StopRequested, Completed OpStage1] \<and>
   status (executeAnalysis (env_stop_at OpStage1) None False submitted_state) = PAUSED \<and>
   shouldStop (executeAnalysis (env_stop_at OpStage1) None False submitted_state)"
proof -
  let ?st' = "executeAnalysis (env_stop_at OpStage1) None False submitted_state"
  from stop_is_cooperative [OF submitted_nonblank, where env = "env_stop_at OpStage1"
      and options = None and r = False and a = "Click ClickStop" and s = submitted_state
      and runs = "[]" and c = ClickStop]
  have "status ?st' = PAUSED \<longrightarrow> shouldStop ?st'"
    by blast
  then have "shouldStop ?st'"
    by (simp add: stop_during_stage1_run)
  then show ?thesis
    using submitted_nonblank by (simp add: stop_during_stage1_run)
qed

text \<open>
  A fresh start without visuals, with the click on Stop while the production breakdown is
  in flight: the scene extraction is started after the click, and the run ends with the
  stop flag set and the status complete.
\<close>

theorem stop_during_last_step_counterexample:
  "trace (start (env_stop_at OpStage3) sample_script None initial_state) =
     [Started OpStage1, Completed OpStage1, Started OpStage2, Completed OpStage2,
      Started OpStage3, StopRequested, Completed OpStage3,
      Started OpScenes, Completed OpScenes] \<and>
   shouldStop (start (env_stop_at OpStage3) sample_script None initial_state) \<and>
   status (start (env_stop_at OpStage3) sample_script None initial_state) = COMPLETE"
  unfolding start_sample fresh_run by (simp add: run_eval)

section \<open>Resume, on its own\<close>

text \<open>A resumed run, with a project and with source text.\<close>

lemma resume_run:
  assumes "currentProject st = Some p" and "trim (scriptToAnalyze st) \<noteq> []"
  shows "\<exists>ev p'.
      trace (handleResumeAnalysis env st) = trace st @ ev \<and>
      currentProject (handleResumeAnalysis env st) = Some p' \<and>
      keeps p p' \<and>
      (stage1Result p \<noteq> None \<longrightarrow> OpStage1 \<notin> set (started ev)) \<and>
      (stage2Result p \<noteq> None \<longrightarrow> OpStage2 \<notin> set (started ev)) \<and>
      (stage3Result p \<noteq> None \<longrightarrow> OpStage3 \<notin> set (started ev) \<and> OpScenes \<notin> set (started ev)) \<and>
      distinct (started ev) \<and>
      (stage1Result p = None \<longrightarrow> (\<exists>rest. started ev = OpStage1 # rest)) \<and>
      (stage1Result p \<noteq> None \<and> stage2Result p = None \<longrightarrow>
         (\<exists>rest. started ev = OpStage2 # rest)) \<and>
      (stage1Result p \<noteq> None \<and> stage2Result p \<noteq> None \<and> stage3Result p = None \<and>
       \<not> needVisuals (visualOptions st) \<longrightarrow> (\<exists>rest. started ev = OpStage3 # rest)) \<and>
      (stage1Result p \<noteq> None \<and> stage2Result p \<noteq> None \<and> stage3Result p = None \<and>
       needVisuals (visualOptions st) \<and> \<not> stop_during env OpVisuals \<longrightarrow>
         (\<exists>rest. started ev = OpVisuals # OpStage3 # rest)) \<and>
      outcomes_match env (scriptToAnalyze st) ev \<and>
      merged env (scriptToAnalyze st) ev p' \<and>
      unmerged ev p p' \<and>
      stage2_exact env (scriptToAnalyze st) (visualOptions st) ev p p'"
proof -
  let ?s = "st\<lparr>shouldStop := False\<rparr>"
  let ?t = "scriptToAnalyze st"
  let ?opts = "visualOptions st"
  let ?st0 = "entry_state ?opts True ?s"
  let ?run = "executeAnalysis env ?opts True ?s"
  have resume: "handleResumeAnalysis env st = ?run"
    using assms(1) by (rule handleResumeAnalysis_unfold)
  have wp: "working_project True ?s = p"
    using assms(1) by (rule working_project_resume)
  have nb: "trim (scriptToAnalyze ?s) \<noteq> []"
    using assms(2) by simp
  have run: "trace ?run = trace (out_state (all_blocks env ?opts ?t (p, ?st0)))"
    using executeAnalysis_nonblank [OF nb, of env ?opts True] wp by simp
  show ?thesis
  proof (rule run_facts [OF nb, of env ?opts True], goal_cases)
    case facts: (1 ev p')
    have tr: "trace ?run = trace st @ ev"
      using facts(1) by simp
    have first: "\<exists>rest. started ev = x # rest"
      if "\<exists>rest. trace (out_state (all_blocks env ?opts ?t (p, ?st0))) = trace ?st0 @ Started x # rest"
      for x
    proof -
      from that obtain rest where "trace ?run = trace st @ Started x # rest"
        unfolding run by auto
      with tr have "ev = Started x # rest" by simp
      then show ?thesis by simp
    qed
    have k1: "stage1Result p = None \<longrightarrow> (\<exists>rest. started ev = OpStage1 # rest)"
      by (intro impI first pending_stage1) simp_all
    have k2: "stage1Result p \<noteq> None \<and> stage2Result p = None \<longrightarrow>
        (\<exists>rest. started ev = OpStage2 # rest)"
      by (intro impI first pending_stage2) simp_all
    have k3: "stage1Result p \<noteq> None \<and> stage2Result p \<noteq> None \<and> stage3Result p = None \<and>
        \<not> needVisuals ?opts \<longrightarrow> (\<exists>rest. started ev = OpStage3 # rest)"
      by (intro impI first pending_stage3_no_visuals) simp_all
    have k4: "stage1Result p \<noteq> None \<and> stage2Result p \<noteq> None \<and> stage3Result p = None \<and>
        needVisuals ?opts \<and> \<not> stop_during env OpVisuals \<longrightarrow>
        (\<exists>rest. started ev = OpVisuals # OpStage3 # rest)"
    proof (intro impI)
      assume h: "stage1Result p \<noteq> None \<and> stage2Result p \<noteq> None \<and> stage3Result p = None \<and>
        needVisuals ?opts \<and> \<not> stop_during env OpVisuals"
      from h obtain r2 where r2: "stage2Result p = Some r2" by auto
      from h obtain opts where opts: "?opts = Some opts"
        by (cases ?opts) (auto simp: needVisuals_def)
      have "\<exists>rest. trace (out_state (all_blocks env (Some opts) ?t (p, ?st0))) =
          trace ?st0 @ Started OpVisuals # Completed OpVisuals # Started OpStage3 # rest"
        using h r2 opts by (intro pending_stage3_after_visuals) simp_all
      then obtain rest where "trace (out_state (all_blocks env ?opts ?t (p, ?st0))) =
          trace st @ Started OpVisuals # Completed OpVisuals # Started OpStage3 # rest"
        using opts by auto
      then have
        "trace ?run = trace st @ Started OpVisuals # Completed OpVisuals # Started OpStage3 # rest"
        unfolding run .
      with tr have "ev = Started OpVisuals # Completed OpVisuals # Started OpStage3 # rest"
        by simp
      then show "\<exists>rest. started ev = OpVisuals # OpStage3 # rest" by simp
    qed
    have d: "distinct (started ev)"
      using facts(3) by (rule subseq_distinct) simp
    have k: "keeps p p'"
      using facts(13) unfolding wp by (simp add: project_ok_def)
    have skips:
      "stage1Result p \<noteq> None \<longrightarrow> OpStage1 \<notin> set (started ev)"
      "stage2Result p \<noteq> None \<longrightarrow> OpStage2 \<notin> set (started ev)"
      "stage3Result p \<noteq> None \<longrightarrow> OpStage3 \<notin> set (started ev) \<and> OpScenes \<notin> set (started ev)"
      using facts(7,8,9) unfolding wp by simp_all
    have cp: "currentProject (handleResumeAnalysis env st) = Some p'"
      using facts(12) unfolding resume .
    have tr': "trace (handleResumeAnalysis env st) = trace st @ ev"
      using tr unfolding resume .
    have pk: "merged env ?t ev p'" "unmerged ev p p'"
      using facts(13) unfolding wp by (simp_all add: project_ok_def)
    have om: "outcomes_match env ?t ev"
      using facts(10) by simp
    have ex: "stage2_exact env ?t ?opts ev p p'"
      using run_exact(1) [OF nb facts(1) facts(12)] unfolding wp by simp
    show ?case
      by (intro exI [of _ ev] exI [of _ p'] conjI tr' cp k skips d k1 k2 k3 k4 om pk ex)
  qed
qed

text \<open>
  C1. A click on Resume with no run in flight is \<open>handleResumeAnalysis\<close>, which returns after
  at most five calls if nothing but Stop is clicked meanwhile. Without a project it does
  nothing, and with blank text stored for analysis it starts no operation. On a project
  with any subset of the three stage results present, and with source text to analyse: the
  operation of a stage whose result is present is not started, and the result stays as it
  is (the stage-2 result exactly up to the bundle that the visuals step merges into it when
  that step completes); no operation is started twice; the operation of the first stage
  without a result is started: it is the first operation of the run, except that for
  stage 3 the optional visuals step, when requested, runs before it, and stage 3 then
  follows provided Stop is not clicked while the visuals are generated; and every operation
  that is started is the call of the backend: it ends completed or failed as the backend
  answers, and the result it returned is the one in the project at the end.
\<close>

theorem resume_is_idempotent:
  "drive env 5 (step env (Click ClickResume) (st, [])) = (handleResumeAnalysis env st, []) \<and>
   (currentProject st = None \<longrightarrow> handleResumeAnalysis env st = st) \<and>
   (trim (scriptToAnalyze st) = [] \<longrightarrow> trace (handleResumeAnalysis env st) = trace st) \<and>
   (currentProject st = Some p \<and> trim (scriptToAnalyze st) \<noteq> [] \<longrightarrow>
    (\<exists>ev p'.
      trace (handleResumeAnalysis env st) = trace st @ ev \<and>
      currentProject (handleResumeAnalysis env st) = Some p' \<and>
      keeps p p' \<and>
      (stage1Result p \<noteq> None \<longrightarrow> OpStage1 \<notin> set (started ev)) \<and>
      (stage2Result p \<noteq> None \<longrightarrow> OpStage2 \<notin> set (started ev)) \<and>
      (stage3Result p \<noteq> None \<longrightarrow> OpStage3 \<notin> set (started ev) \<and> OpScenes \<notin> set (started ev)) \<and>
      distinct (started ev) \<and>
      (stage1Result p = None \<longrightarrow> (\<exists>rest. started ev = OpStage1 # rest)) \<and>
      (stage1Result p \<noteq> None \<and> stage2Result p = None \<longrightarrow>
         (\<exists>rest. started ev = OpStage2 # rest)) \<and>
      (stage1Result p \<noteq> None \<and> stage2Result p \<noteq> None \<and> stage3Result p = None \<and>
       \<not> needVisuals (visualOptions st) \<longrightarrow> (\<exists>rest. started ev = OpStage3 # rest)) \<and>
      (stage1Result p \<noteq> None \<and> stage2Result p \<noteq> None \<and> stage3Result p = None \<and>
       needVisuals (visualOptions st) \<and> \<not> stop_during env OpVisuals \<longrightarrow>
         (\<exists>rest. started ev = OpVisuals # OpStage3 # rest)) \<and>
      outcomes_match env (scriptToAnalyze st) ev \<and>
      merged env (scriptToAnalyze st) ev p' \<and>
      unmerged ev p p' \<and>
      stage2_exact env (scriptToAnalyze st) (visualOptions st) ev p p'))"
proof (intro conjI impI)
  show "drive env 5 (step env (Click ClickResume) (st, [])) = (handleResumeAnalysis env st, [])"
    by (rule handleResumeAnalysis_alone)
next
  assume "currentProject st = None"
  then show "handleResumeAnalysis env st = st"
    by (simp add: handleResumeAnalysis_def)
next
  assume blank: "trim (scriptToAnalyze st) = []"
  show "trace (handleResumeAnalysis env st) = trace st"
  proof (cases "currentProject st")
    case None
    then show ?thesis by (simp add: handleResumeAnalysis_def)
  next
    case (Some q)
    from blank have "trim (scriptToAnalyze (st\<lparr>shouldStop := False\<rparr>)) = []" by simp
    from executeAnalysis_blank [OF this, of env "visualOptions st" True] Some show ?thesis
      by (simp add: handleResumeAnalysis_def)
  qed
next
  assume "currentProject st = Some p \<and> trim (scriptToAnalyze st) \<noteq> []"
  then have "currentProject st = Some p" "trim (scriptToAnalyze st) \<noteq> []"
    by blast+
  then show "\<exists>ev p'.
      trace (handleResumeAnalysis env st) = trace st @ ev \<and>
      currentProject (handleResumeAnalysis env st) = Some p' \<and>
      keeps p p' \<and>
      (stage1Result p \<noteq> None \<longrightarrow> OpStage1 \<notin> set (started ev)) \<and>
      (stage2Result p \<noteq> None \<longrightarrow> OpStage2 \<notin> set (started ev)) \<and>
      (stage3Result p \<noteq> None \<longrightarrow> OpStage3 \<notin> set (started ev) \<and> OpScenes \<notin> set (started ev)) \<and>
      distinct (started ev) \<and>
      (stage1Result p = None \<longrightarrow> (\<exists>rest. started ev = OpStage1 # rest)) \<and>
      (stage1Result p \<noteq> None \<and> stage2Result p = None \<longrightarrow>
         (\<exists>rest. started ev = OpStage2 # rest)) \<and>
      (stage1Result p \<noteq> None \<and> stage2Result p \<noteq> None \<and> stage3Result p = None \<and>
       \<not> needVisuals (visualOptions st) \<longrightarrow> (\<exists>rest. started ev = OpStage3 # rest)) \<and>
      (stage1Result p \<noteq> None \<and> stage2Result p \<noteq> None \<and> stage3Result p = None \<and>
       needVisuals (visualOptions st) \<and> \<not> stop_during env OpVisuals \<longrightarrow>
         (\<exists>rest. started ev = OpVisuals # OpStage3 # rest)) \<and>
      outcomes_match env (scriptToAnalyze st) ev \<and>
      merged env (scriptToAnalyze st) ev p' \<and>
      unmerged ev p p' \<and>
      stage2_exact env (scriptToAnalyze st) (visualOptions st) ev p p'"
    by (rule resume_run)
qed

theorem resume_is_idempotent_witness:
  "currentProject (paused_state None) = Some paused_project \<and>
   trim (scriptToAnalyze (paused_state None)) \<noteq> [] \<and>
   stage1Result paused_project \<noteq> None \<and> stage2Result paused_project \<noteq> None \<and>
   stage3Result paused_project = None \<and>
   OpStage1 \<notin> set (started (new_events (paused_state None)
       (handleResumeAnalysis env_ok (paused_state None)))) \<and>
   OpStage2 \<notin> set (started (new_events (paused_state None)
       (handleResumeAnalysis env_ok (paused_state None)))) \<and>
   OpStage3 \<in> set (started (new_events (paused_state None)
       (handleResumeAnalysis env_ok (paused_state None))))"
proof -
  have h1: "currentProject (paused_state None) = Some paused_project"
    by (rule paused_state_proj)
  have h2: "trim (scriptToAnalyze (paused_state None)) \<noteq> []"
    by (simp add: paused_state_proj sample_script_nonblank)
  from resume_is_idempotent [where env = env_ok and st = "paused_state None" and p = paused_project]
    h1 h2 obtain ev rest where
    "trace (handleResumeAnalysis env_ok (paused_state None)) = trace (paused_state None) @ ev"
    "OpStage1 \<notin> set (started ev)" "OpStage2 \<notin> set (started ev)"
    "started ev = OpStage3 # rest"
    by (auto simp: paused_project_stages paused_state_proj needVisuals_def)
  then show ?thesis
    using h1 h2 by (simp add: paused_project_stages)
qed

text \<open>
  Two inputs on which a stage is not run, or is run again. Resume on a paused project
  without a stage-3 result, when the text stored for analysis is blank: the orchestrator
  returns at its guard, and no operation is started. And a fresh start on which Stop is
  clicked while stage 1 is awaited (the status is paused from then on, so the Resume button
  is on screen) and Resume is clicked before that call returns: the resumed run starts
  stage 1 a second time; the first run, whose stop flag the click on Resume has cleared,
  goes on, runs stage 2 and stores its result; when the stage-1 call of the resumed run
  returns, the project is replaced by the copy of the resumed run, in which stage 2 has no
  result, and stage 2 is started again.
\<close>

theorem resume_counterexample:
  "currentProject ((paused_state None)\<lparr>scriptToAnalyze := []\<rparr>) = Some paused_project \<and>
   stage3Result paused_project = None \<and>
   trace ((paused_state None)\<lparr>scriptToAnalyze := []\<rparr>) = [] \<and>
   trace (handleResumeAnalysis env_ok ((paused_state None)\<lparr>scriptToAnalyze := []\<rparr>)) = [] \<and>
   status (fst (exec env_ok [Click ClickStop]
      (spawn (launch None False submitted_state) []))) = PAUSED \<and>
   map_option stage2Result (currentProject (fst (exec env_ok
      [Click ClickStop, Click ClickResume, Returns 0, Returns 0]
      (spawn (launch None False submitted_state) [])))) = Some (Some sample_stage2) \<and>
   trace (fst (exec env_ok [Click ClickStop, Click ClickResume, Returns 0, Returns 0, Returns 1]
      (spawn (launch None False submitted_state) []))) =
     [Started OpStage1, StopRequested, Started OpStage1, Completed OpStage1, Started OpStage2,
      Completed OpStage2, Started OpStage3, Completed OpStage1, Started OpStage2] \<and>
   map_option stage2Result (currentProject (fst (exec env_ok
      [Click ClickStop, Click ClickResume, Returns 0, Returns 0, Returns 1]
      (spawn (launch None False submitted_state) [])))) = Some None"
proof -
  have blank:
    "currentProject ((paused_state None)\<lparr>scriptToAnalyze := []\<rparr>) = Some paused_project \<and>
     stage3Result paused_project = None \<and>
     trace ((paused_state None)\<lparr>scriptToAnalyze := []\<rparr>) = [] \<and>
     trace (handleResumeAnalysis env_ok ((paused_state None)\<lparr>scriptToAnalyze := []\<rparr>)) = []"
    by (simp add: handleResumeAnalysis_def executeAnalysis_def paused_state_def trim_def Let_def
        paused_project_stages)
  have overlap:
    "status (fst (exec env_ok [Click ClickStop]
        (spawn (launch None False submitted_state) []))) = PAUSED"
    "map_option stage2Result (currentProject (fst (exec env_ok
        [Click ClickStop, Click ClickResume, Returns 0, Returns 0]
        (spawn (launch None False submitted_state) [])))) = Some (Some sample_stage2)"
    "trace (fst (exec env_ok [Click ClickStop, Click ClickResume, Returns 0, Returns 0, Returns 1]
        (spawn (launch None False submitted_state) []))) =
       [Started OpStage1, StopRequested, Started OpStage1, Completed OpStage1, Started OpStage2,
        Completed OpStage2, Started OpStage3, Completed OpStage1, Started OpStage2]"
    "map_option stage2Result (currentProject (fst (exec env_ok
        [Click ClickStop, Click ClickResume, Returns 0, Returns 0, Returns 1]
        (spawn (launch None False submitted_state) [])))) = Some None"
    by (simp_all add: exec_def step_def click_on_def returns_def launch_def to_stage1_def
        to_stage2_def to_visuals_def to_stage3_def needVisuals_def
        suspend_def settle_def handleStopAnalysis_def end_call_def
        working_project_def entry_state_def sample_script_nonblank Let_def
        submitted_state_def initial_state_def createNewProject_def)
  from blank overlap show ?thesis
    by blast
qed

section \<open>The requests of the visuals step\<close>

lemma portrait_requests_append:
  "portrait_requests (a @ b) = portrait_requests a @ portrait_requests b"
  by (induction a rule: portrait_requests.induct) simp_all

lemma portrait_requests_set: "c \<in> set (portrait_requests ev) \<longleftrightarrow> ImagesCall (Portrait c) \<in> set ev"
  by (induction ev rule: portrait_requests.induct) auto

lemma portraitLoop_Cons:
  "portraitLoop env deck opts (c # cs) acc =
     (fst (portraitLoop env deck opts cs
        (case with_retry (be_images env deck (Portrait c)) of
           Inr imgs \<Rightarrow>
             if imageBytes0 imgs \<noteq> [] then
               acc @ [\<lparr>portrait_name = name c, portrait_image_base64 = imageBytes0 imgs\<rparr>]
             else acc
         | Inl e \<Rightarrow> acc)),
      (if acc \<noteq> [] \<or> poster opts \<or> concept opts then [Sleep 4000] else []) @
      [ImagesCall (Portrait c)] @
      snd (portraitLoop env deck opts cs
        (case with_retry (be_images env deck (Portrait c)) of
           Inr imgs \<Rightarrow>
             if imageBytes0 imgs \<noteq> [] then
               acc @ [\<lparr>portrait_name = name c, portrait_image_base64 = imageBytes0 imgs\<rparr>]
             else acc
         | Inl e \<Rightarrow> acc)))"
  by (simp add: Let_def split: prod.splits)

lemma portraitLoop_requests:
  "portrait_requests (snd (portraitLoop env deck opts cs acc)) = cs"
proof (induction cs arbitrary: acc)
  case Nil
  show ?case by simp
next
  case (Cons c cs)
  show ?case
    unfolding portraitLoop_Cons by (simp add: portrait_requests_append Cons.IH)
qed

lemma comparableLoop_requests_aux:
  "comparableLoop env deck hp ts found = (res, ev) \<Longrightarrow> portrait_requests ev = []"
  by (induction ts arbitrary: found res ev)
    (auto simp: Let_def portrait_requests_append split: prod.splits)

lemma comparableLoop_requests:
  "portrait_requests (snd (comparableLoop env deck hp ts found)) = []"
  by (cases "comparableLoop env deck hp ts found") (simp add: comparableLoop_requests_aux)

lemma step_requests:
  "portrait_requests (snd (conceptArtStep env deck opts)) = []"
  "portrait_requests (snd (moviePosterStep env deck opts)) = []"
  "portrait_requests (snd (styleFramesStep env deck opts)) = []"
  by (simp_all add: conceptArtStep_def moviePosterStep_def styleFramesStep_def Let_def
      split: sum.splits)

lemma generateAllVisuals_events:
  "snd (generateAllVisuals env deck opts) =
     snd (conceptArtStep env deck opts) @ snd (moviePosterStep env deck opts) @
     (if characters opts then snd (portraitLoop env deck opts (mainCharacters deck) []) else []) @
     (if poster opts \<or> concept opts \<or> characters opts
      then snd (comparableLoop env deck
        ((if characters opts then fst (portraitLoop env deck opts (mainCharacters deck) [])
          else []) \<noteq> [])
        (take 3 (comparable_titles deck)) [])
      else []) @
     snd (styleFramesStep env deck opts)"
  by (simp add: generateAllVisuals_def split: prod.splits)

lemma generateAllVisuals_portraits:
  "v_character_portraits (fst (generateAllVisuals env deck opts)) =
     (if characters opts then fst (portraitLoop env deck opts (mainCharacters deck) []) else [])"
  by (simp add: generateAllVisuals_def split: prod.splits)

lemma generateAllVisuals_requests:
  "portrait_requests (snd (generateAllVisuals env deck opts)) =
     (if characters opts then mainCharacters deck else [])"
  by (simp add: generateAllVisuals_events portrait_requests_append step_requests
      portraitLoop_requests comparableLoop_requests)

lemma portraitLoop_names:
  "portrait_name ` set (fst (portraitLoop env deck opts cs acc)) \<subseteq>
     portrait_name ` set acc \<union> name ` set cs"
proof (induction cs arbitrary: acc)
  case Nil
  show ?case by simp
next
  case (Cons c cs)
  define acc' where "acc' =
    (case with_retry (be_images env deck (Portrait c)) of
       Inr imgs \<Rightarrow>
         if imageBytes0 imgs \<noteq> [] then
           acc @ [\<lparr>portrait_name = name c, portrait_image_base64 = imageBytes0 imgs\<rparr>]
         else acc
     | Inl e \<Rightarrow> acc)"
  have 1: "fst (portraitLoop env deck opts (c # cs) acc) = fst (portraitLoop env deck opts cs acc')"
    unfolding portraitLoop_Cons acc'_def by simp
  have 2: "portrait_name ` set acc' \<subseteq> portrait_name ` set acc \<union> {name c}"
    unfolding acc'_def by (auto split: sum.splits)
  have 3: "portrait_name ` set (fst (portraitLoop env deck opts cs acc')) \<subseteq>
      portrait_name ` set acc' \<union> name ` set cs"
    by (rule Cons.IH)
  define A where "A = portrait_name ` set acc"
  define A' where "A' = portrait_name ` set acc'"
  define B where "B = name ` set cs"
  define R where "R = portrait_name ` set (fst (portraitLoop env deck opts cs acc'))"
  have "R \<subseteq> A' \<union> B" "A' \<subseteq> A \<union> {name c}"
    using 2 3 unfolding A_def A'_def B_def R_def by blast+
  then have "R \<subseteq> A \<union> insert (name c) B"
    by blast
  then show ?case
    unfolding 1 A_def B_def R_def by simp
qed

lemma mainCharacters_on_screen:
  "c \<in> set (mainCharacters deck) \<Longrightarrow>
   screen_presence c = OnScreen \<and> c \<in> set (character_profiles deck)"
  unfolding mainCharacters_def by (auto dest: in_set_takeD)

lemma portraitLoop_result:
  "fst (portraitLoop env deck opts cs acc) = acc @ concat (map (portrait_of env deck) cs)"
proof (induction cs arbitrary: acc)
  case Nil
  show ?case by simp
next
  case (Cons c cs)
  show ?case
    unfolding portraitLoop_Cons by (simp add: Cons.IH portrait_of_def split: sum.splits)
qed

lemma generateAllVisuals_portraits_exact:
  "v_character_portraits (fst (generateAllVisuals env deck opts)) =
     (if characters opts then concat (map (portrait_of env deck) (mainCharacters deck)) else [])"
  by (simp add: generateAllVisuals_portraits portraitLoop_result)

text \<open>
  C10. The portraits that the visuals step requests are, in order, those of the first two
  profiles with screen presence on-screen when the characters option is set, and none
  otherwise; the portraits in the bundle it returns are what the backend returned for
  exactly these requests. So at most two portraits are requested, each for an on-screen
  profile of the pitch deck, and every portrait in the bundle bears the name of a profile
  it was requested for.
\<close>

theorem portraits_for_first_two_on_screen:
  "portrait_requests (snd (generateAllVisuals env deck opts)) =
     (if characters opts
      then take 2 (filter (\<lambda>c. screen_presence c = OnScreen) (character_profiles deck))
      else []) \<and>
   v_character_portraits (fst (generateAllVisuals env deck opts)) =
     (if characters opts
      then concat (map (portrait_of env deck)
        (take 2 (filter (\<lambda>c. screen_presence c = OnScreen) (character_profiles deck))))
      else []) \<and>
   length (portrait_requests (snd (generateAllVisuals env deck opts))) \<le> 2 \<and>
   (\<forall>c \<in> set (portrait_requests (snd (generateAllVisuals env deck opts))).
      screen_presence c = OnScreen \<and> c \<in> set (character_profiles deck)) \<and>
   (\<forall>p \<in> set (v_character_portraits (fst (generateAllVisuals env deck opts))).
      \<exists>c \<in> set (portrait_requests (snd (generateAllVisuals env deck opts))).
        portrait_name p = name c)"
proof -
  have a: "portrait_requests (snd (generateAllVisuals env deck opts)) =
     (if characters opts
      then take 2 (filter (\<lambda>c. screen_presence c = OnScreen) (character_profiles deck))
      else [])"
    by (simp add: generateAllVisuals_requests mainCharacters_def)
  have b: "v_character_portraits (fst (generateAllVisuals env deck opts)) =
     (if characters opts
      then concat (map (portrait_of env deck)
        (take 2 (filter (\<lambda>c. screen_presence c = OnScreen) (character_profiles deck))))
      else [])"
    by (simp add: generateAllVisuals_portraits_exact mainCharacters_def)
  have c: "length (portrait_requests (snd (generateAllVisuals env deck opts))) \<le> 2"
    by (simp add: generateAllVisuals_requests mainCharacters_def)
  have d: "\<forall>c \<in> set (portrait_requests (snd (generateAllVisuals env deck opts))).
      screen_presence c = OnScreen \<and> c \<in> set (character_profiles deck)"
  proof
    fix c assume "c \<in> set (portrait_requests (snd (generateAllVisuals env deck opts)))"
    then have "c \<in> set (mainCharacters deck)"
      by (simp add: generateAllVisuals_requests split: if_splits)
    then show "screen_presence c = OnScreen \<and> c \<in> set (character_profiles deck)"
      by (rule mainCharacters_on_screen)
  qed
  have e: "\<forall>p \<in> set (v_character_portraits (fst (generateAllVisuals env deck opts))).
      \<exists>c \<in> set (portrait_requests (snd (generateAllVisuals env deck opts))).
        portrait_name p = name c"
  proof
    fix p assume p: "p \<in> set (v_character_portraits (fst (generateAllVisuals env deck opts)))"
    then have ch: "characters opts"
      by (simp add: generateAllVisuals_portraits split: if_splits)
    with p have "portrait_name p \<in>
        portrait_name ` set (fst (portraitLoop env deck opts (mainCharacters deck) []))"
      by (simp add: generateAllVisuals_portraits)
    with portraitLoop_names [of env deck opts "mainCharacters deck" "[]"]
    have "portrait_name p \<in> name ` set (mainCharacters deck)"
      by auto
    with ch show "\<exists>c \<in> set (portrait_requests (snd (generateAllVisuals env deck opts))).
        portrait_name p = name c"
      by (auto simp: generateAllVisuals_requests)
  qed
  from a b c d e show ?thesis by blast
qed

lemma sample_mainCharacters: "mainCharacters sample_stage2 = [alice, bob]"
  by (simp add: mainCharacters_def sample_stage2_def alice_def narrator_def bob_def carol_def)

lemma sample_portraits:
  "portrait_of env_ok sample_stage2 alice =
     [\<lparr>portrait_name = ''Alice'', portrait_image_base64 = ''IMAGE''\<rparr>]"
  "portrait_of env_ok sample_stage2 bob = []"
  by (simp_all add: portrait_of_def env_ok_def with_retry_Inr with_retry_fatal
      bad_request_error_not_transient imageBytes0_def alice_def bob_def)

theorem portraits_for_first_two_on_screen_witness:
  "portrait_requests (snd (generateAllVisuals env_ok sample_stage2 characters_only)) =
     [alice, bob] \<and>
   v_character_portraits (fst (generateAllVisuals env_ok sample_stage2 characters_only)) =
     [\<lparr>portrait_name = ''Alice'', portrait_image_base64 = ''IMAGE''\<rparr>] \<and>
   character_profiles sample_stage2 = [alice, narrator, bob, carol] \<and>
   screen_presence narrator = OffScreen \<and> screen_presence carol = OnScreen"
proof -
  from portraits_for_first_two_on_screen [of env_ok sample_stage2 characters_only]
  have "portrait_requests (snd (generateAllVisuals env_ok sample_stage2 characters_only)) =
     (if characters characters_only
      then take 2 (filter (\<lambda>c. screen_presence c = OnScreen) (character_profiles sample_stage2))
      else [])"
    and "v_character_portraits (fst (generateAllVisuals env_ok sample_stage2 characters_only)) =
     (if characters characters_only
      then concat (map (portrait_of env_ok sample_stage2)
        (take 2 (filter (\<lambda>c. screen_presence c = OnScreen) (character_profiles sample_stage2))))
      else [])"
    by blast+
  then have "portrait_requests (snd (generateAllVisuals env_ok sample_stage2 characters_only)) =
     [alice, bob]"
    and "v_character_portraits (fst (generateAllVisuals env_ok sample_stage2 characters_only)) =
     [\<lparr>portrait_name = ''Alice'', portrait_image_base64 = ''IMAGE''\<rparr>]"
    using sample_mainCharacters
    by (simp_all add: characters_only_def mainCharacters_def sample_portraits)
  then show ?thesis
    by (simp add: sample_stage2_def narrator_def carol_def)
qed

section \<open>Merging the visuals\<close>

lemma patchProfile_Nil [simp]: "patchProfile [] = (\<lambda>c. c)"
  by (rule ext) (simp add: patchProfile_def)

lemma mergeVisuals_fields:
  "concept_art_base64 (mergeVisuals r v) =
     (if v_concept_art_base64 v \<noteq> [] then Some (v_concept_art_base64 v) else concept_art_base64 r)"
  "movie_poster_base64 (mergeVisuals r v) =
     (if v_movie_poster_base64 v \<noteq> [] then Some (v_movie_poster_base64 v)
      else movie_poster_base64 r)"
  "comparable_titles_visuals (mergeVisuals r v) =
     (if v_comparable_titles_visuals v \<noteq> [] then Some (v_comparable_titles_visuals v)
      else comparable_titles_visuals r)"
  "visual_style_images_base64 (mergeVisuals r v) =
     (if v_visual_style_images_base64 v \<noteq> [] then Some (v_visual_style_images_base64 v)
      else visual_style_images_base64 r)"
  "character_profiles (mergeVisuals r v) =
     map (patchProfile (v_character_portraits v)) (character_profiles r)"
  by (simp_all add: mergeVisuals_def Let_def)

lemma patchProfile_image:
  "image_base64 (patchProfile ps c) =
     (case List.find (\<lambda>q. portrait_name q = name c) ps of
        Some q \<Rightarrow> Some (portrait_image_base64 q)
      | None \<Rightarrow> image_base64 c)"
  by (simp add: patchProfile_def split: option.splits)

lemma patchProfile_rest: "(patchProfile ps c)\<lparr>image_base64 := image_base64 c\<rparr> = c"
  by (simp add: patchProfile_def split: option.splits)

lemma patchProfile_other: "\<forall>q \<in> set ps. portrait_name q \<noteq> name c \<Longrightarrow> patchProfile ps c = c"
proof -
  assume "\<forall>q \<in> set ps. portrait_name q \<noteq> name c"
  then have "List.find (\<lambda>q. portrait_name q = name c) ps = None"
    by (simp add: find_None_iff)
  then show ?thesis
    by (simp add: patchProfile_def)
qed

lemma generateAllVisuals_fields:
  "v_concept_art_base64 (fst (generateAllVisuals env deck opts)) =
     (if concept opts
      then (case with_retry (be_images env deck ConceptArt) of
              Inr imgs \<Rightarrow> imageBytes0 imgs | Inl e \<Rightarrow> [])
      else [])"
  "v_movie_poster_base64 (fst (generateAllVisuals env deck opts)) =
     (if poster opts
      then (case with_retry (be_images env deck MoviePoster) of
              Inr imgs \<Rightarrow> imageBytes0 imgs | Inl e \<Rightarrow> [])
      else [])"
  "v_visual_style_images_base64 (fst (generateAllVisuals env deck opts)) =
     (if concept opts
      then (case with_retry (be_images env deck StyleFrames) of
              Inr imgs \<Rightarrow> filter (\<lambda>b. b \<noteq> []) imgs | Inl e \<Rightarrow> [])
      else [])"
  by (simp_all add: generateAllVisuals_def conceptArtStep_def moviePosterStep_def
      styleFramesStep_def Let_def split: prod.splits sum.splits)

text \<open>
  C8. The merge of the bundle of the visuals step into a stage-2 result, field by field:
  concept art and poster are overwritten exactly when the bundle has a non-empty value for
  them; the two arrays are replaced exactly when the bundle has a non-empty array; every
  profile is patched with the first portrait of the bundle that bears its name, in its
  image field only, and a profile whose name no portrait bears is left as it is; no other
  field changes. With only the poster requested the bundle has no concept art, no portrait
  and no style image, so that concept art, profiles and style images stay as they are, and
  the poster is the image that the backend returned, if it returned one. This merge is
  what the visuals block of the orchestrator stores in the project.
\<close>

theorem visuals_merge_is_a_field_patch:
  "concept_art_base64 (mergeVisuals r v) =
     (if v_concept_art_base64 v \<noteq> [] then Some (v_concept_art_base64 v)
      else concept_art_base64 r) \<and>
   movie_poster_base64 (mergeVisuals r v) =
     (if v_movie_poster_base64 v \<noteq> [] then Some (v_movie_poster_base64 v)
      else movie_poster_base64 r) \<and>
   comparable_titles_visuals (mergeVisuals r v) =
     (if v_comparable_titles_visuals v \<noteq> [] then Some (v_comparable_titles_visuals v)
      else comparable_titles_visuals r) \<and>
   visual_style_images_base64 (mergeVisuals r v) =
     (if v_visual_style_images_base64 v \<noteq> [] then Some (v_visual_style_images_base64 v)
      else visual_style_images_base64 r) \<and>
   character_profiles (mergeVisuals r v) =
     map (patchProfile (v_character_portraits v)) (character_profiles r) \<and>
   image_base64 (patchProfile ps c) =
     (case List.find (\<lambda>q. portrait_name q = name c) ps of
        Some q \<Rightarrow> Some (portrait_image_base64 q)
      | None \<Rightarrow> image_base64 c) \<and>
   (patchProfile ps c)\<lparr>image_base64 := image_base64 c\<rparr> = c \<and>
   ((\<forall>q \<in> set ps. portrait_name q \<noteq> name c) \<longrightarrow> patchProfile ps c = c) \<and>
   strip_visuals (mergeVisuals r v) = strip_visuals r \<and>
   (poster opts \<and> \<not> concept opts \<and> \<not> characters opts \<longrightarrow>
      concept_art_base64 (mergeVisuals r (fst (generateAllVisuals env r opts))) =
        concept_art_base64 r \<and>
      character_profiles (mergeVisuals r (fst (generateAllVisuals env r opts))) =
        character_profiles r \<and>
      visual_style_images_base64 (mergeVisuals r (fst (generateAllVisuals env r opts))) =
        visual_style_images_base64 r \<and>
      movie_poster_base64 (mergeVisuals r (fst (generateAllVisuals env r opts))) =
        (case with_retry (be_images env r MoviePoster) of
           Inr imgs \<Rightarrow> if imageBytes0 imgs \<noteq> [] then Some (imageBytes0 imgs)
                       else movie_poster_base64 r
         | Inl e \<Rightarrow> movie_poster_base64 r)) \<and>
   (needVisuals (Some opts) \<and> \<not> shouldStop st \<and> stage2Result ap = Some r \<longrightarrow>
      (\<exists>st'. visuals_block env (Some opts) (ap, st) =
           Inr (ap\<lparr>stage2Result :=
                  Some (mergeVisuals r (fst (generateAllVisuals env r opts)))\<rparr>, st') \<and>
         currentProject st' =
           Some (ap\<lparr>stage2Result :=
                  Some (mergeVisuals r (fst (generateAllVisuals env r opts)))\<rparr>)))"
proof -
  have poster_only: "concept_art_base64 (mergeVisuals r (fst (generateAllVisuals env r opts))) =
        concept_art_base64 r \<and>
      character_profiles (mergeVisuals r (fst (generateAllVisuals env r opts))) =
        character_profiles r \<and>
      visual_style_images_base64 (mergeVisuals r (fst (generateAllVisuals env r opts))) =
        visual_style_images_base64 r \<and>
      movie_poster_base64 (mergeVisuals r (fst (generateAllVisuals env r opts))) =
        (case with_retry (be_images env r MoviePoster) of
           Inr imgs \<Rightarrow> if imageBytes0 imgs \<noteq> [] then Some (imageBytes0 imgs)
                       else movie_poster_base64 r
         | Inl e \<Rightarrow> movie_poster_base64 r)"
    if "poster opts \<and> \<not> concept opts \<and> \<not> characters opts"
    using that
    by (simp add: mergeVisuals_fields generateAllVisuals_fields generateAllVisuals_portraits
        split: sum.splits)
  have block: "\<exists>st'. visuals_block env (Some opts) (ap, st) =
           Inr (ap\<lparr>stage2Result :=
                  Some (mergeVisuals r (fst (generateAllVisuals env r opts)))\<rparr>, st') \<and>
         currentProject st' =
           Some (ap\<lparr>stage2Result :=
                  Some (mergeVisuals r (fst (generateAllVisuals env r opts)))\<rparr>)"
    if "needVisuals (Some opts) \<and> \<not> shouldStop st \<and> stage2Result ap = Some r"
  proof -
    from that have h: "needVisuals (Some opts)" "\<not> shouldStop st" "stage2Result ap = Some r"
      by blast+
    show ?thesis
      unfolding visuals_block_ok [OF h] by simp
  qed
  show ?thesis
    by (intro conjI impI mergeVisuals_fields patchProfile_image patchProfile_rest
        patchProfile_other strip_visuals_mergeVisuals)
      (use poster_only block in blast)+
qed

lemma env_ok_images:
  "req \<noteq> Portrait bob \<Longrightarrow> with_retry (be_images env_ok deck req) = Inr [''IMAGE'']"
  "with_retry (be_images env_ok deck (Portrait bob)) = Inl bad_request_error"
  by (simp_all add: env_ok_def with_retry_Inr with_retry_fatal bad_request_error_not_transient)

theorem visuals_merge_is_a_field_patch_witness:
  "poster poster_only \<and> \<not> concept poster_only \<and> \<not> characters poster_only \<and>
   concept_art_base64 sample_stage2 = None \<and>
   concept_art_base64 (mergeVisuals sample_stage2
     (fst (generateAllVisuals env_ok sample_stage2 poster_only))) = None \<and>
   character_profiles (mergeVisuals sample_stage2
     (fst (generateAllVisuals env_ok sample_stage2 poster_only))) =
     [alice, narrator, bob, carol] \<and>
   movie_poster_base64 (mergeVisuals sample_stage2
     (fst (generateAllVisuals env_ok sample_stage2 poster_only))) = Some ''IMAGE''"
proof -
  have h: "poster poster_only \<and> \<not> concept poster_only \<and> \<not> characters poster_only"
    by (simp add: poster_only_def)
  from visuals_merge_is_a_field_patch [where r = sample_stage2 and opts = poster_only
      and env = env_ok] h
  have "concept_art_base64 (mergeVisuals sample_stage2
      (fst (generateAllVisuals env_ok sample_stage2 poster_only))) =
      concept_art_base64 sample_stage2"
    and "character_profiles (mergeVisuals sample_stage2
      (fst (generateAllVisuals env_ok sample_stage2 poster_only))) =
      character_profiles sample_stage2"
    and "movie_poster_base64 (mergeVisuals sample_stage2
      (fst (generateAllVisuals env_ok sample_stage2 poster_only))) =
      (case with_retry (be_images env_ok sample_stage2 MoviePoster) of
         Inr imgs \<Rightarrow> if imageBytes0 imgs \<noteq> [] then Some (imageBytes0 imgs)
                     else movie_poster_base64 sample_stage2
       | Inl e \<Rightarrow> movie_poster_base64 sample_stage2)"
    by blast+
  then show ?thesis
    using h by (simp add: env_ok_images imageBytes0_def sample_stage2_def)
qed

section \<open>Visuals that cannot be generated\<close>

lemma step_events:
  "set (snd (conceptArtStep env deck opts)) =
     (if concept opts then {ImagesCall ConceptArt} else {})"
  "set (snd (moviePosterStep env deck opts)) =
     (if poster opts
      then (if concept opts then {Sleep 2000, ImagesCall MoviePoster} else {ImagesCall MoviePoster})
      else {})"
  "set (snd (styleFramesStep env deck opts)) =
     (if concept opts then {Sleep 4000, ImagesCall StyleFrames} else {})"
  by (auto simp: conceptArtStep_def moviePosterStep_def styleFramesStep_def Let_def
      split: sum.splits)

lemma portraitLoop_other:
  "e \<in> set (snd (portraitLoop env deck opts cs acc)) \<Longrightarrow>
   e = Sleep 4000 \<or> (\<exists>c \<in> set cs. e = ImagesCall (Portrait c))"
proof (induction cs arbitrary: acc)
  case Nil
  then show ?case by simp
next
  case (Cons c cs)
  from Cons.prems show ?case
    unfolding portraitLoop_Cons using Cons.IH by (auto split: if_splits)
qed

lemma comparableLoop_aux:
  "comparableLoop env deck hp ts found = (res, ev) \<Longrightarrow>
   (\<forall>e \<in> set ev. (\<exists>n. e = Sleep n) \<or>
      (\<exists>t \<in> set ts. e = GroundedCall t \<or> e = ImagesCall (ComparablePoster t))) \<and>
   (\<forall>t \<in> set ts. GroundedCall t \<in> set ev) \<and>
   map tv_title res = map tv_title found @ ts"
proof (induction ts arbitrary: found res ev)
  case Nil
  then show ?case by simp
next
  case (Cons t ts)
  let ?g = "case with_retry (be_grounded env t) of Inl e \<Rightarrow> [] | Inr x \<Rightarrow> firstInlineData x"
  let ?img = "if ?g = []
    then (case with_retry (be_images env deck (ComparablePoster t)) of
            Inl e \<Rightarrow> [] | Inr x \<Rightarrow> imageBytes0 x)
    else ?g"
  define found' where "found' = found @ [\<lparr>tv_title = t, tv_image_base64 = ?img\<rparr>]"
  define pause where "pause = (if found \<noteq> [] \<or> hp then [Sleep 5000] else [])"
  define fallback where
    "fallback = (if ?g = [] then [Sleep 2000, ImagesCall (ComparablePoster t)] else [])"
  obtain res' ev' where rec: "comparableLoop env deck hp ts found' = (res', ev')"
    by (cases "comparableLoop env deck hp ts found'")
  from Cons.prems rec have res: "res = res'"
    and ev2: "ev = pause @ [GroundedCall t] @ fallback @ ev'"
    unfolding found'_def pause_def fallback_def by (simp_all add: Let_def)
  have f': "map tv_title found' = map tv_title found @ [t]"
    unfolding found'_def by simp
  have p: "set pause \<subseteq> {Sleep 5000}"
    and f: "set fallback \<subseteq> {Sleep 2000, ImagesCall (ComparablePoster t)}"
    unfolding pause_def fallback_def by auto
  from Cons.IH [OF rec] have ih:
    "\<forall>e \<in> set ev'. (\<exists>n. e = Sleep n) \<or>
      (\<exists>t \<in> set ts. e = GroundedCall t \<or> e = ImagesCall (ComparablePoster t))"
    "\<forall>t \<in> set ts. GroundedCall t \<in> set ev'"
    "map tv_title res' = map tv_title found' @ ts"
    by blast+
  have 1: "\<forall>e \<in> set ev. (\<exists>n. e = Sleep n) \<or>
      (\<exists>u \<in> set (t # ts). e = GroundedCall u \<or> e = ImagesCall (ComparablePoster u))"
    using ih(1) p f unfolding ev2 by auto
  have 2: "\<forall>u \<in> set (t # ts). GroundedCall u \<in> set ev"
    using ih(2) unfolding ev2 by auto
  have 3: "map tv_title res = map tv_title found @ t # ts"
    using ih(3) f' res by simp
  from 1 2 3 show ?case by blast
qed

lemma comparableLoop_facts:
  "\<forall>e \<in> set (snd (comparableLoop env deck hp ts found)). (\<exists>n. e = Sleep n) \<or>
      (\<exists>t \<in> set ts. e = GroundedCall t \<or> e = ImagesCall (ComparablePoster t))"
  "\<forall>t \<in> set ts. GroundedCall t \<in> set (snd (comparableLoop env deck hp ts found))"
  "map tv_title (fst (comparableLoop env deck hp ts found)) = map tv_title found @ ts"
  using comparableLoop_aux [of env deck hp ts found
      "fst (comparableLoop env deck hp ts found)" "snd (comparableLoop env deck hp ts found)"]
  by simp_all

lemma visual_requests:
  "(ImagesCall ConceptArt \<in> set (snd (generateAllVisuals env deck opts))) = concept opts"
  "(ImagesCall MoviePoster \<in> set (snd (generateAllVisuals env deck opts))) = poster opts"
  "(ImagesCall StyleFrames \<in> set (snd (generateAllVisuals env deck opts))) = concept opts"
  "(GroundedCall t \<in> set (snd (generateAllVisuals env deck opts))) =
     ((poster opts \<or> concept opts \<or> characters opts) \<and>
      t \<in> set (take 3 (comparable_titles deck)))"
proof -
  let ?P = "snd (portraitLoop env deck opts (mainCharacters deck) [])"
  let ?C = "snd (comparableLoop env deck
      ((if characters opts then fst (portraitLoop env deck opts (mainCharacters deck) [])
        else []) \<noteq> [])
      (take 3 (comparable_titles deck)) [])"
  have P: "ImagesCall ConceptArt \<notin> set ?P" "ImagesCall MoviePoster \<notin> set ?P"
    "ImagesCall StyleFrames \<notin> set ?P" "GroundedCall t \<notin> set ?P"
    using portraitLoop_other [where env = env and deck = deck and opts = opts
        and cs = "mainCharacters deck" and acc = "[]"] by blast+
  have C: "ImagesCall ConceptArt \<notin> set ?C" "ImagesCall MoviePoster \<notin> set ?C"
    "ImagesCall StyleFrames \<notin> set ?C"
    using comparableLoop_facts(1) [where env = env and deck = deck
        and ts = "take 3 (comparable_titles deck)" and found = "[]"]
    by blast+
  have G: "(GroundedCall t \<in> set ?C) = (t \<in> set (take 3 (comparable_titles deck)))"
    using comparableLoop_facts(1,2) [where env = env and deck = deck
        and ts = "take 3 (comparable_titles deck)" and found = "[]"]
    by blast
  show "(ImagesCall ConceptArt \<in> set (snd (generateAllVisuals env deck opts))) = concept opts"
    "(ImagesCall MoviePoster \<in> set (snd (generateAllVisuals env deck opts))) = poster opts"
    "(ImagesCall StyleFrames \<in> set (snd (generateAllVisuals env deck opts))) = concept opts"
    "(GroundedCall t \<in> set (snd (generateAllVisuals env deck opts))) =
     ((poster opts \<or> concept opts \<or> characters opts) \<and>
      t \<in> set (take 3 (comparable_titles deck)))"
    using P C G by (simp_all add: generateAllVisuals_events step_events)
qed

lemma comparable_titles_exact:
  "map tv_title (v_comparable_titles_visuals (fst (generateAllVisuals env deck opts))) =
     (if poster opts \<or> concept opts \<or> characters opts
      then take 3 (comparable_titles deck) else [])"
proof -
  have "v_comparable_titles_visuals (fst (generateAllVisuals env deck opts)) =
     (if poster opts \<or> concept opts \<or> characters opts
      then fst (comparableLoop env deck
        ((if characters opts then fst (portraitLoop env deck opts (mainCharacters deck) [])
          else []) \<noteq> [])
        (take 3 (comparable_titles deck)) [])
      else [])"
    by (auto simp: generateAllVisuals_def split: prod.splits)
  then show ?thesis
    by (simp add: comparableLoop_facts(3))
qed

lemma one_of_two_portraits:
  assumes main: "mainCharacters deck = [a, b]" and ch: "characters opts"
    and names: "name a \<noteq> name b"
    and ok: "with_retry (be_images env deck (Portrait x)) = Inr imgs" "imageBytes0 imgs \<noteq> []"
    and bad: "isl (with_retry (be_images env deck (Portrait y)))"
    and xy: "x = a \<and> y = b \<or> x = b \<and> y = a"
  shows "v_character_portraits (fst (generateAllVisuals env deck opts)) =
      [\<lparr>portrait_name = name x, portrait_image_base64 = imageBytes0 imgs\<rparr>]"
    and "character_profiles (mergeVisuals deck (fst (generateAllVisuals env deck opts))) =
      map (\<lambda>c. if name c = name x then c\<lparr>image_base64 := Some (imageBytes0 imgs)\<rparr> else c)
        (character_profiles deck)"
    and "y \<in> set (character_profiles (mergeVisuals deck (fst (generateAllVisuals env deck opts))))"
proof -
  have px: "portrait_of env deck x =
      [\<lparr>portrait_name = name x, portrait_image_base64 = imageBytes0 imgs\<rparr>]"
    using ok by (simp add: portrait_of_def)
  have py: "portrait_of env deck y = []"
    using bad by (cases "with_retry (be_images env deck (Portrait y))")
      (simp_all add: portrait_of_def)
  show v: "v_character_portraits (fst (generateAllVisuals env deck opts)) =
      [\<lparr>portrait_name = name x, portrait_image_base64 = imageBytes0 imgs\<rparr>]"
    using xy px py by (auto simp: generateAllVisuals_portraits_exact main ch)
  have patch: "patchProfile [\<lparr>portrait_name = name x, portrait_image_base64 = imageBytes0 imgs\<rparr>] =
      (\<lambda>c. if name c = name x then c\<lparr>image_base64 := Some (imageBytes0 imgs)\<rparr> else c)"
    by (rule ext) (simp add: patchProfile_def)
  show m: "character_profiles (mergeVisuals deck (fst (generateAllVisuals env deck opts))) =
      map (\<lambda>c. if name c = name x then c\<lparr>image_base64 := Some (imageBytes0 imgs)\<rparr> else c)
        (character_profiles deck)"
    by (simp add: mergeVisuals_fields(5) v patch)
  have "y \<in> set (mainCharacters deck)"
    using xy main by auto
  then have "y \<in> set (character_profiles deck)"
    using mainCharacters_on_screen by blast
  moreover have "name y \<noteq> name x"
    using xy names by auto
  ultimately show "y \<in> set (character_profiles
      (mergeVisuals deck (fst (generateAllVisuals env deck opts))))"
    unfolding m by (auto simp: image_iff intro!: bexI [of _ y])
qed


lemma sample_portrait_calls:
  "with_retry (be_images env_ok deck (Portrait alice)) = Inr [''IMAGE'']"
  "with_retry (be_images env_ok deck (Portrait bob_double)) = Inr [''IMAGE'']"
  by (rule env_ok_images(1); simp add: alice_def bob_def bob_double_def)+



end
